theory Spec2Isabelle
  imports Main "HOL-Library.Char_ord" "HOL-Library.List_Lexorder"
begin

section \<open>Data model\<close>

subsection \<open>Game (models/Game.ts, flat structure)\<close>

datatype GameStatus = SCHEDULED | LIVE | FINAL | POSTPONED | CANCELLED

datatype Sport = NBA | NFL | MLB | NHL | SOCCER

text \<open>
  The flat \<open>Game\<close> interface read by the event detector (\<open>homeAbbr\<close>, \<open>homeScore\<close>,
  \<open>period\<close>). Dates are milliseconds since the epoch, scores are integers, optional
  fields are options.
\<close>

record Game =
  g_id :: string
  g_sport :: Sport
  g_externalId :: string
  g_scheduledTime :: nat
  g_lastUpdated :: nat
  g_status :: GameStatus
  g_statusDetail :: "string option"
  g_homeTeam :: string
  g_homeAbbr :: string
  g_homeScore :: int
  g_homeRecord :: "string option"
  g_awayTeam :: string
  g_awayAbbr :: string
  g_awayScore :: int
  g_awayRecord :: "string option"
  g_period :: "int option"
  g_clock :: "string option"
  g_isPlayoff :: "bool option"
  g_notificationsSent :: "string list option"

definition getPointDifferential :: "Game \<Rightarrow> int" where
  "getPointDifferential game = \<bar>g_homeScore game - g_awayScore game\<bar>"

definition isGameLive :: "Game \<Rightarrow> bool" where
  "isGameLive game = (g_status game = LIVE)"

subsection \<open>Event (models/Event.ts)\<close>

datatype EventType =
    GAME_START | GAME_END | GAME_POSTPONED | GAME_CANCELLED
  | CLOSE_GAME | BLOWOUT | COMEBACK
  | UPSET | RIVALRY_GAME | PLAYOFF_GAME
  | HALFTIME | FINAL_PERIOD | OVERTIME
  | CUSTOM

text \<open>The string value of each enum member, as \<open>parts.join\<close> sees it.\<close>

fun eventTypeStr :: "EventType \<Rightarrow> string" where
  "eventTypeStr GAME_START = ''GAME_START''"
| "eventTypeStr GAME_END = ''GAME_END''"
| "eventTypeStr GAME_POSTPONED = ''GAME_POSTPONED''"
| "eventTypeStr GAME_CANCELLED = ''GAME_CANCELLED''"
| "eventTypeStr CLOSE_GAME = ''CLOSE_GAME''"
| "eventTypeStr BLOWOUT = ''BLOWOUT''"
| "eventTypeStr COMEBACK = ''COMEBACK''"
| "eventTypeStr UPSET = ''UPSET''"
| "eventTypeStr RIVALRY_GAME = ''RIVALRY_GAME''"
| "eventTypeStr PLAYOFF_GAME = ''PLAYOFF_GAME''"
| "eventTypeStr HALFTIME = ''HALFTIME''"
| "eventTypeStr FINAL_PERIOD = ''FINAL_PERIOD''"
| "eventTypeStr OVERTIME = ''OVERTIME''"
| "eventTypeStr CUSTOM = ''CUSTOM''"

datatype EventPriority = LOW | MEDIUM | HIGH | CRITICAL

fun priorityValue :: "EventPriority \<Rightarrow> nat" where
  "priorityValue LOW = 1"
| "priorityValue MEDIUM = 2"
| "priorityValue HIGH = 3"
| "priorityValue CRITICAL = 4"

text \<open>\<open>metadata?: Record<string, any>\<close>: the values the detectors store.\<close>

datatype MetaValue =
    MNum int
  | MStr string
  | MDate nat
  | MObj "(string \<times> MetaValue) list"

record TargetAudience =
  ta_allUsers :: "bool option"
  ta_userIds :: "string list option"
  ta_teams :: "string list option"
  ta_tags :: "string list option"

record Event =
  e_id :: string
  e_type :: EventType
  e_priority :: EventPriority
  e_gameId :: string
  e_sport :: Sport
  e_detectedAt :: nat
  e_occurredAt :: "nat option"
  e_title :: string
  e_message :: string
  e_notified :: bool
  e_notifiedAt :: "nat option"
  e_metadata :: "(string \<times> MetaValue) list option"
  e_targetAudience :: "TargetAudience option"

text \<open>\<open>parts.join('_')\<close> for \<open>parts\<close> of two or three strings.\<close>

fun join_underscore :: "string list \<Rightarrow> string" where
  "join_underscore [] = []"
| "join_underscore [p] = p"
| "join_underscore (p # ps) = p @ ''_'' @ join_underscore ps"

text \<open>\<open>if (suffix)\<close>: an absent or empty suffix is falsy.\<close>

definition generateEventId :: "string \<Rightarrow> EventType \<Rightarrow> string option \<Rightarrow> string" where
  "generateEventId gameId eventType suffix =
     (let parts = [gameId, eventTypeStr eventType];
          parts' = (case suffix of
                      None \<Rightarrow> parts
                    | Some s \<Rightarrow> if s \<noteq> [] then parts @ [s] else parts)
      in join_underscore parts')"

definition BLOWOUT_POINT_DIFFERENTIAL :: int where
  "BLOWOUT_POINT_DIFFERENTIAL = 20"

definition CLOSE_GAME_POINT_DIFFERENTIAL :: int where
  "CLOSE_GAME_POINT_DIFFERENTIAL = 5"

subsection \<open>Rendering numbers in template strings\<close>

definition digitChar :: "nat \<Rightarrow> char" where
  "digitChar d = ''0123456789'' ! (d mod 10)"

function showNat :: "nat \<Rightarrow> string" where
  "showNat n = (if n < 10 then [digitChar n] else showNat (n div 10) @ [digitChar (n mod 10)])"
  by pat_completeness auto
termination
  by (relation "measure (\<lambda>n. n)") auto

declare showNat.simps [simp del]

definition showInt :: "int \<Rightarrow> string" where
  "showInt i = (if i < 0 then ''-'' @ showNat (nat (- i)) else showNat (nat i))"

section \<open>Event detector (engine/eventDetector.ts)\<close>

text \<open>
  Every \<open>new Date()\<close> in the detector is a read of the wall clock. The clock is a
  parameter \<open>clk\<close>: \<open>clk k\<close> is what the \<open>k\<close>-th read site of the file returns, so that
  two runs (and two sites of one run) may see different times.
\<close>

type_synonym clock = "nat \<Rightarrow> nat"

definition gameTeams :: "Game \<Rightarrow> TargetAudience" where
  "gameTeams g = \<lparr> ta_allUsers = None, ta_userIds = None,
                   ta_teams = Some [g_homeAbbr g, g_awayAbbr g], ta_tags = None \<rparr>"

definition detectGameStart :: "clock \<Rightarrow> Game option \<Rightarrow> Game \<Rightarrow> Event option" where
  "detectGameStart clk oldGame newGame =
     (let justStarted = (map_option g_status oldGame \<noteq> Some LIVE \<and> g_status newGame = LIVE)
      in if \<not> justStarted then None
         else Some \<lparr>
           e_id = generateEventId (g_id newGame) GAME_START None,
           e_type = GAME_START,
           e_priority = HIGH,
           e_gameId = g_id newGame,
           e_sport = g_sport newGame,
           e_detectedAt = clk 0,
           e_occurredAt = Some (clk 1),
           e_title = ''Game Started'',
           e_message = g_awayAbbr newGame @ '' @ '' @ g_homeAbbr newGame @ '' is now live!'',
           e_notified = False,
           e_notifiedAt = None,
           e_metadata = Some [(''scheduledTime'', MDate (g_scheduledTime newGame))],
           e_targetAudience = Some (gameTeams newGame) \<rparr>)"

definition detectGameEnd :: "clock \<Rightarrow> Game option \<Rightarrow> Game \<Rightarrow> Event option" where
  "detectGameEnd clk oldGame newGame =
     (let justEnded = (map_option g_status oldGame = Some LIVE \<and> g_status newGame = FINAL)
      in if \<not> justEnded then None
         else
           let homeScore = g_homeScore newGame;
               awayScore = g_awayScore newGame;
               message =
                 (if homeScore > awayScore then
                    g_homeAbbr newGame @ '' defeats '' @ g_awayAbbr newGame @ '' ''
                      @ showInt homeScore @ ''-'' @ showInt awayScore
                  else if awayScore > homeScore then
                    g_awayAbbr newGame @ '' defeats '' @ g_homeAbbr newGame @ '' ''
                      @ showInt awayScore @ ''-'' @ showInt homeScore
                  else
                    g_awayAbbr newGame @ '' and '' @ g_homeAbbr newGame @ '' tie ''
                      @ showInt homeScore @ ''-'' @ showInt awayScore)
           in Some \<lparr>
             e_id = generateEventId (g_id newGame) GAME_END None,
             e_type = GAME_END,
             e_priority = HIGH,
             e_gameId = g_id newGame,
             e_sport = g_sport newGame,
             e_detectedAt = clk 2,
             e_occurredAt = Some (clk 3),
             e_title = ''Final Score'',
             e_message = message,
             e_notified = False,
             e_notifiedAt = None,
             e_metadata = Some [(''finalScore'',
                 MObj [(''home'', MNum homeScore), (''away'', MNum awayScore)])],
             e_targetAudience = Some (gameTeams newGame) \<rparr>)"

text \<open>
  \<open>!differential\<close> is true for the number 0; \<open>oldDifferential && ...\<close> is falsy for
  \<open>null\<close> and for 0.
\<close>

definition detectBlowout :: "clock \<Rightarrow> Game option \<Rightarrow> Game \<Rightarrow> Event option" where
  "detectBlowout clk oldGame newGame =
     (let differential = getPointDifferential newGame
      in if differential = 0 \<or> differential < BLOWOUT_POINT_DIFFERENTIAL then None
         else
           let oldDifferential = map_option getPointDifferential oldGame;
               wasAlreadyBlowout =
                 (case oldDifferential of
                    None \<Rightarrow> False
                  | Some d \<Rightarrow> d \<noteq> 0 \<and> d \<ge> BLOWOUT_POINT_DIFFERENTIAL)
           in if wasAlreadyBlowout then None
              else
                let homeScore = g_homeScore newGame;
                    awayScore = g_awayScore newGame;
                    leadingTeamAbbr =
                      (if homeScore > awayScore then g_homeAbbr newGame else g_awayAbbr newGame);
                    trailingTeamAbbr =
                      (if homeScore > awayScore then g_awayAbbr newGame else g_homeAbbr newGame)
                in Some \<lparr>
                  e_id = generateEventId (g_id newGame) BLOWOUT None,
                  e_type = BLOWOUT,
                  e_priority = MEDIUM,
                  e_gameId = g_id newGame,
                  e_sport = g_sport newGame,
                  e_detectedAt = clk 4,
                  e_occurredAt = None,
                  e_title = ''Blowout Alert'',
                  e_message = leadingTeamAbbr @ '' is dominating '' @ trailingTeamAbbr
                    @ '' by '' @ showInt differential @ '' points'',
                  e_notified = False,
                  e_notifiedAt = None,
                  e_metadata = Some [(''differential'', MNum differential),
                                     (''leadingTeam'', MStr leadingTeamAbbr)],
                  e_targetAudience = Some (gameTeams newGame) \<rparr>)"

text \<open>
  \<open>!newGame.period\<close> is true for an absent period and for period 0. The final period
  is the constant 4 of the source.
\<close>

definition detectCloseGame :: "clock \<Rightarrow> Game option \<Rightarrow> Game \<Rightarrow> Event option" where
  "detectCloseGame clk oldGame newGame =
     (let differential = getPointDifferential newGame
      in if differential = 0 \<or> differential > CLOSE_GAME_POINT_DIFFERENTIAL then None
         else
           case g_period newGame of
             None \<Rightarrow> None
           | Some period \<Rightarrow>
               if period = 0 \<or> period < 4 then None
               else
                 let oldDifferential = map_option getPointDifferential oldGame;
                     wasAlreadyClose =
                       (case oldDifferential of
                          None \<Rightarrow> False
                        | Some d \<Rightarrow> d \<le> CLOSE_GAME_POINT_DIFFERENTIAL)
                 in if wasAlreadyClose then None
                    else Some \<lparr>
                      e_id = generateEventId (g_id newGame) CLOSE_GAME None,
                      e_type = CLOSE_GAME,
                      e_priority = HIGH,
                      e_gameId = g_id newGame,
                      e_sport = g_sport newGame,
                      e_detectedAt = clk 5,
                      e_occurredAt = None,
                      e_title = ''Close Game!'',
                      e_message = g_awayAbbr newGame @ '' @ '' @ g_homeAbbr newGame
                        @ '' is a nail-biter! Score within '' @ showInt differential
                        @ '' points'',
                      e_notified = False,
                      e_notifiedAt = None,
                      e_metadata = Some [(''differential'', MNum differential),
                                         (''period'', MNum period)],
                      e_targetAudience = Some (gameTeams newGame) \<rparr>)"

definition detectFinalPeriod :: "clock \<Rightarrow> Game option \<Rightarrow> Game \<Rightarrow> Event option" where
  "detectFinalPeriod clk oldGame newGame =
     (case g_period newGame of
        None \<Rightarrow> None
      | Some period \<Rightarrow>
          if period = 0 then None
          else
            let isInFinalPeriod = (period = 4);
                wasInFinalPeriod = (Option.bind oldGame g_period = Some 4);
                justEnteredFinalPeriod = (isInFinalPeriod \<and> \<not> wasInFinalPeriod)
            in if \<not> justEnteredFinalPeriod then None
               else Some \<lparr>
                 e_id = generateEventId (g_id newGame) FINAL_PERIOD None,
                 e_type = FINAL_PERIOD,
                 e_priority = MEDIUM,
                 e_gameId = g_id newGame,
                 e_sport = g_sport newGame,
                 e_detectedAt = clk 6,
                 e_occurredAt = None,
                 e_title = ''Final Period'',
                 e_message = g_awayAbbr newGame @ '' '' @ showInt (g_awayScore newGame)
                   @ '' @ '' @ g_homeAbbr newGame @ '' '' @ showInt (g_homeScore newGame)
                   @ '' - 4th quarter!'',
                 e_notified = False,
                 e_notifiedAt = None,
                 e_metadata = Some [(''period'', MNum period),
                   (''score'', MObj [(''home'', MNum (g_homeScore newGame)),
                                     (''away'', MNum (g_awayScore newGame))])],
                 e_targetAudience = Some (gameTeams newGame) \<rparr>)"

definition detectStatusChange :: "clock \<Rightarrow> Game option \<Rightarrow> Game \<Rightarrow> Event option" where
  "detectStatusChange clk oldGame newGame =
     (if g_status newGame = POSTPONED \<and> map_option g_status oldGame \<noteq> Some POSTPONED then
        Some \<lparr>
          e_id = generateEventId (g_id newGame) GAME_POSTPONED None,
          e_type = GAME_POSTPONED,
          e_priority = MEDIUM,
          e_gameId = g_id newGame,
          e_sport = g_sport newGame,
          e_detectedAt = clk 7,
          e_occurredAt = None,
          e_title = ''Game Postponed'',
          e_message = g_awayAbbr newGame @ '' @ '' @ g_homeAbbr newGame
            @ '' has been postponed'',
          e_notified = False,
          e_notifiedAt = None,
          e_metadata = None,
          e_targetAudience = Some (gameTeams newGame) \<rparr>
      else if g_status newGame = CANCELLED \<and> map_option g_status oldGame \<noteq> Some CANCELLED then
        Some \<lparr>
          e_id = generateEventId (g_id newGame) GAME_CANCELLED None,
          e_type = GAME_CANCELLED,
          e_priority = MEDIUM,
          e_gameId = g_id newGame,
          e_sport = g_sport newGame,
          e_detectedAt = clk 8,
          e_occurredAt = None,
          e_title = ''Game Cancelled'',
          e_message = g_awayAbbr newGame @ '' @ '' @ g_homeAbbr newGame
            @ '' has been cancelled'',
          e_notified = False,
          e_notifiedAt = None,
          e_metadata = None,
          e_targetAudience = Some (gameTeams newGame) \<rparr>
      else None)"

text \<open>\<open>if (ev) events.push(ev)\<close>: an event object is always truthy.\<close>

definition push_opt :: "Event list \<Rightarrow> Event option \<Rightarrow> Event list" where
  "push_opt events ev = (case ev of None \<Rightarrow> events | Some e \<Rightarrow> events @ [e])"

definition detectCommonEvents :: "clock \<Rightarrow> Game option \<Rightarrow> Game \<Rightarrow> Event list" where
  "detectCommonEvents clk oldGame newGame =
     (let events = [];
          events = push_opt events (detectGameStart clk oldGame newGame);
          events = push_opt events (detectGameEnd clk oldGame newGame);
          events =
            (if isGameLive newGame then
               let events = push_opt events (detectBlowout clk oldGame newGame);
                   events = push_opt events (detectCloseGame clk oldGame newGame);
                   events = push_opt events (detectFinalPeriod clk oldGame newGame)
               in events
             else events);
          events = push_opt events (detectStatusChange clk oldGame newGame)
      in events)"

section \<open>User preferences (models/UserPreferences.ts)\<close>

record SportPrefs =
  sp_enabled :: bool
  sp_teams :: "string list option"
  sp_favoriteTeam :: "string option"
  sp_rivalTeams :: "string list option"
  sp_eventTypes :: "EventType list option"

record QuietHours =
  qh_enabled :: bool
  qh_start :: string
  qh_end :: string
  qh_timezone :: "string option"

datatype Platform = ios | android

record UserPreferences =
  up_userId :: string
  up_fcmToken :: string
  up_platform :: "Platform option"
  up_appVersion :: "string option"
  up_lastActive :: "nat option"
  up_enabled :: bool
  up_sports :: "Sport \<rightharpoonup> SportPrefs"
  up_eventTypePreferences :: "(EventType \<rightharpoonup> bool) option"
  up_quietHours :: "QuietHours option"
  up_isPremium :: "bool option"
  up_subscriptionExpiry :: "nat option"
  up_createdAt :: nat
  up_updatedAt :: nat

text \<open>\<open>s.padStart(2, '0')\<close>.\<close>

definition padStart2 :: "string \<Rightarrow> string" where
  "padStart2 s = replicate (2 - length s) (CHR ''0'') @ s"

text \<open>
  The \<open>HH:mm\<close> string built from \<open>now.getHours()\<close> and \<open>now.getMinutes()\<close>. The
  source compares it with \<open>start\<close> and \<open>end\<close> as strings; the order on \<open>string\<close> is
  the lexicographic one, as in JavaScript.
\<close>

definition currentTimeStr :: "nat \<times> nat \<Rightarrow> string" where
  "currentTimeStr now = padStart2 (showNat (fst now)) @ '':'' @ padStart2 (showNat (snd now))"

text \<open>\<open>xs[i]\<close>, which is \<open>undefined\<close> out of range.\<close>

definition nth_opt :: "'a list \<Rightarrow> nat \<Rightarrow> 'a option" where
  "nth_opt xs i = (if i < length xs then Some (xs ! i) else None)"

text \<open>Truthiness of an optional string: absent and empty are falsy.\<close>

definition truthyStr :: "string option \<Rightarrow> bool" where
  "truthyStr s = (case s of None \<Rightarrow> False | Some v \<Rightarrow> v \<noteq> [])"

text \<open>
  The team block of \<open>shouldNotifyUser\<close> (rivalry matchup, else the legacy team list):
  true when the block returns \<open>false\<close> to the caller. \<open>[homeTeam, awayTeam] = teamIds\<close>
  leaves a missing element \<open>undefined\<close>.
\<close>

definition teamCheckRejects :: "SportPrefs \<Rightarrow> string list option \<Rightarrow> bool" where
  "teamCheckRejects sportPrefs teamIds =
     (if truthyStr (sp_favoriteTeam sportPrefs) \<and> sp_rivalTeams sportPrefs \<noteq> None
         \<and> teamIds \<noteq> None
      then
        let homeTeam = nth_opt (the teamIds) 0;
            awayTeam = nth_opt (the teamIds) 1;
            favoriteTeam = the (sp_favoriteTeam sportPrefs);
            rivalTeams = the (sp_rivalTeams sportPrefs);
            isFavoriteHome = (homeTeam = Some favoriteTeam);
            isFavoriteAway = (awayTeam = Some favoriteTeam);
            isRivalHome = (case homeTeam of None \<Rightarrow> False | Some t \<Rightarrow> t \<in> set rivalTeams);
            isRivalAway = (case awayTeam of None \<Rightarrow> False | Some t \<Rightarrow> t \<in> set rivalTeams);
            isRivalryGame =
              ((isFavoriteHome \<and> isRivalAway) \<or> (isFavoriteAway \<and> isRivalHome))
        in \<not> isRivalryGame
      else if teamIds \<noteq> None \<and> sp_teams sportPrefs \<noteq> None then
        let hasTeamMatch =
              (\<exists>teamId \<in> set (the teamIds). teamId \<in> set (the (sp_teams sportPrefs)))
        in \<not> hasTeamMatch
      else False)"

text \<open>
  The quiet-hours block: true when it returns \<open>false\<close> to the caller. \<open>now\<close> is
  (hours, minutes) of the \<open>new Date()\<close> read in the block.
\<close>

definition quietHoursReject :: "nat \<times> nat \<Rightarrow> UserPreferences \<Rightarrow> bool" where
  "quietHoursReject now preferences =
     (case up_quietHours preferences of
        None \<Rightarrow> False
      | Some qh \<Rightarrow>
          if qh_enabled qh then
            let currentTime = currentTimeStr now;
                start = qh_start qh;
                endTime = qh_end qh
            in if start > endTime
               then currentTime \<ge> start \<or> currentTime \<le> endTime
               else currentTime \<ge> start \<and> currentTime \<le> endTime
          else False)"

text \<open>\<open>shouldNotifyUser\<close>, check by check in the order of the source.\<close>

definition shouldNotifyUser ::
  "nat \<times> nat \<Rightarrow> UserPreferences \<Rightarrow> Sport \<Rightarrow> EventType \<Rightarrow> string list option \<Rightarrow> bool" where
  "shouldNotifyUser now preferences sport eventType teamIds =
     (if \<not> up_enabled preferences then False
      else case up_sports preferences sport of
        None \<Rightarrow> False
      | Some sportPrefs \<Rightarrow>
          if \<not> sp_enabled sportPrefs then False
          else if teamCheckRejects sportPrefs teamIds then False
          else if (case sp_eventTypes sportPrefs of
                     None \<Rightarrow> False
                   | Some ets \<Rightarrow> eventType \<notin> set ets)
          then False
          else if (case up_eventTypePreferences preferences of
                     None \<Rightarrow> False
                   | Some m \<Rightarrow> m eventType = Some False)
          then False
          else if quietHoursReject now preferences then False
          else True)"

section \<open>Push gateway client (services/fcm.ts)\<close>

text \<open>An exception, with its message or code.\<close>

datatype error = Thrown string

record NotificationPayload =
  np_title :: string
  np_body :: string
  np_imageUrl :: "string option"
  np_data :: "(string \<times> string) list option"

record NotificationOptions =
  no_priority :: "string option"
  no_sound :: "string option"
  no_badge :: "nat option"
  no_contentAvailable :: "bool option"

record MulticastMessage =
  mm_tokens :: "string list"
  mm_title :: string
  mm_body :: string
  mm_imageUrl :: "string option"
  mm_data :: "(string \<times> string) list option"
  mm_apnsSound :: string
  mm_apnsBadge :: "nat option"
  mm_apnsContentAvailable :: "bool option"
  mm_androidPriority :: string
  mm_androidSound :: string
  mm_androidChannelId :: string

text \<open>What \<open>sendEachForMulticast\<close> resolves to: counts and one response per token.\<close>

record SendResponse =
  sr_success :: bool
  sr_errorCode :: "string option"

record BatchResponse =
  br_successCount :: nat
  br_failureCount :: nat
  br_responses :: "SendResponse list"

text \<open>
  The gateway is outside the repository: \<open>gw k msg\<close> is what the \<open>k\<close>-th submission of
  one \<open>sendBatchNotifications\<close> call does, an exception or a response.
\<close>

type_synonym gateway = "nat \<Rightarrow> MulticastMessage \<Rightarrow> error + BatchResponse"

record BatchResult =
  successCount :: nat
  failureCount :: nat
  invalidTokens :: "string option list"

definition batchSize :: nat where
  "batchSize = 500"

text \<open>
  \<open>for (let i = 0; i < fcmTokens.length; i += batchSize)
     batches.push(fcmTokens.slice(i, i + batchSize))\<close>
\<close>

function splitBatches :: "string list \<Rightarrow> nat \<Rightarrow> string list list \<Rightarrow> string list list" where
  "splitBatches fcmTokens i batches =
     (if i < length fcmTokens
      then splitBatches fcmTokens (i + batchSize)
             (batches @ [take batchSize (drop i fcmTokens)])
      else batches)"
  by pat_completeness auto
termination
  by (relation "measure (\<lambda>(fcmTokens, i, batches). length fcmTokens - i)")
     (auto simp: batchSize_def)

definition buildMessage ::
  "string list \<Rightarrow> NotificationPayload \<Rightarrow> NotificationOptions option \<Rightarrow> MulticastMessage" where
  "buildMessage batch payload options =
     \<lparr> mm_tokens = batch,
       mm_title = np_title payload,
       mm_body = np_body payload,
       mm_imageUrl = np_imageUrl payload,
       mm_data = np_data payload,
       mm_apnsSound =
         (if truthyStr (Option.bind options no_sound) then the (Option.bind options no_sound)
          else ''default''),
       mm_apnsBadge = Option.bind options no_badge,
       mm_apnsContentAvailable = Option.bind options no_contentAvailable,
       mm_androidPriority =
         (if truthyStr (Option.bind options no_priority) then the (Option.bind options no_priority)
          else ''high''),
       mm_androidSound =
         (if truthyStr (Option.bind options no_sound) then the (Option.bind options no_sound)
          else ''default''),
       mm_androidChannelId = ''game_events'' \<rparr>"

definition isInvalidTokenCode :: "string option \<Rightarrow> bool" where
  "isInvalidTokenCode code =
     (code = Some ''messaging/invalid-registration-token'' \<or>
      code = Some ''messaging/registration-token-not-registered'')"

text \<open>
  \<open>response.responses.forEach((resp, idx) => ...)\<close>: pushes \<open>batch[idx]\<close>, which is
  \<open>undefined\<close> (here \<open>None\<close>) when the gateway answers with more responses than tokens.
\<close>

fun collectInvalid ::
  "string list \<Rightarrow> SendResponse list \<Rightarrow> nat \<Rightarrow> string option list \<Rightarrow> string option list" where
  "collectInvalid batch [] idx invalid = invalid"
| "collectInvalid batch (resp # resps) idx invalid =
     collectInvalid batch resps (Suc idx)
       (if \<not> sr_success resp \<and> isInvalidTokenCode (sr_errorCode resp)
        then invalid @ [nth_opt batch idx]
        else invalid)"

text \<open>
  The loop over the batches. The second component is the list of messages handed to
  the gateway so far; an exception of the gateway leaves the loop (the \<open>catch\<close> logs and
  rethrows).
\<close>

fun sendBatches ::
  "gateway \<Rightarrow> NotificationPayload \<Rightarrow> NotificationOptions option \<Rightarrow> string list list \<Rightarrow> nat
   \<Rightarrow> BatchResult \<Rightarrow> MulticastMessage list \<Rightarrow> (error + BatchResult) \<times> MulticastMessage list" where
  "sendBatches gw payload options [] k acc sent = (Inr acc, sent)"
| "sendBatches gw payload options (batch # rest) k acc sent =
     (let message = buildMessage batch payload options
      in case gw k message of
           Inl err \<Rightarrow> (Inl err, sent @ [message])
         | Inr response \<Rightarrow>
             sendBatches gw payload options rest (Suc k)
               \<lparr> successCount = successCount acc + br_successCount response,
                 failureCount = failureCount acc + br_failureCount response,
                 invalidTokens =
                   (if br_failureCount response > 0
                    then collectInvalid batch (br_responses response) 0 (invalidTokens acc)
                    else invalidTokens acc) \<rparr>
               (sent @ [message]))"

definition sendBatchNotifications ::
  "gateway \<Rightarrow> string list \<Rightarrow> NotificationPayload \<Rightarrow> NotificationOptions option
   \<Rightarrow> (error + BatchResult) \<times> MulticastMessage list" where
  "sendBatchNotifications gw fcmTokens payload options =
     (if length fcmTokens = 0
      then (Inr \<lparr> successCount = 0, failureCount = 0, invalidTokens = [] \<rparr>, [])
      else
        let batches = splitBatches fcmTokens 0 []
        in sendBatches gw payload options batches 0
             \<lparr> successCount = 0, failureCount = 0, invalidTokens = [] \<rparr> [])"

text \<open>The string value of the \<open>Sport\<close> enum, for the payload's data.\<close>

fun sportStr :: "Sport \<Rightarrow> string" where
  "sportStr NBA = ''NBA''"
| "sportStr NFL = ''NFL''"
| "sportStr MLB = ''MLB''"
| "sportStr NHL = ''NHL''"
| "sportStr SOCCER = ''SOCCER''"

text \<open>\<open>sendEventNotification\<close> returns the two counts only.\<close>

definition sendEventNotification ::
  "gateway \<Rightarrow> Event \<Rightarrow> UserPreferences list \<Rightarrow> (error + nat \<times> nat) \<times> MulticastMessage list" where
  "sendEventNotification gw event users =
     (if length users = 0 then (Inr (0, 0), [])
      else
        let fcmTokens = map up_fcmToken users;
            payload = \<lparr> np_title = e_title event, np_body = e_message event,
                        np_imageUrl = None,
                        np_data = Some [(''eventId'', e_id event),
                                        (''eventType'', eventTypeStr (e_type event)),
                                        (''gameId'', e_gameId event),
                                        (''sport'', sportStr (e_sport event))] \<rparr>;
            options = \<lparr> no_priority =
                          Some (if priorityValue (e_priority event) \<ge> priorityValue HIGH
                                then ''high'' else ''normal''),
                        no_sound =
                          (if priorityValue (e_priority event) \<ge> priorityValue HIGH
                           then Some ''default'' else None),
                        no_badge = None, no_contentAvailable = None \<rparr>
        in case sendBatchNotifications gw fcmTokens payload (Some options) of
             (Inl err, sent) \<Rightarrow> (Inl err, sent)
           | (Inr result, sent) \<Rightarrow> (Inr (successCount result, failureCount result), sent))"

section \<open>Notification engine (engine/notificationEngine.ts)\<close>

text \<open>
  The collaborators of the engine are parameters. Every field is indexed by the
  position \<open>i\<close> of the event in the list given to \<open>processEvents\<close> (and by the position
  \<open>j\<close> inside an inner loop), so that each call may fail or answer on its own:
  \<^item> \<open>env_getEventThrows\<close>, \<open>env_saveEventThrows\<close>, \<open>env_markThrows\<close>: the exception the
    Firestore call of that name throws at event \<open>i\<close>, if any;
  \<^item> \<open>env_merge\<close>: the document that \<open>set(eventData, {merge: true})\<close> leaves, from the
    document stored before and the event written;
  \<^item> \<open>env_timestampNow\<close>: \<open>Timestamp.now()\<close>;
  \<^item> \<open>env_getPreferences\<close>: the preferences document of a user;
  \<^item> \<open>env_preferencesDocs\<close>: the documents of the \<open>preferences\<close> collection group;
  \<^item> \<open>env_localTime\<close>: hours and minutes of the \<open>new Date()\<close> read in \<open>shouldNotifyUser\<close>;
  \<^item> \<open>env_gateway\<close>: the push gateway.
\<close>

record Env =
  env_getEventThrows :: "nat \<Rightarrow> error option"
  env_saveEventThrows :: "nat \<Rightarrow> error option"
  env_markThrows :: "nat \<Rightarrow> error option"
  env_merge :: "Event option \<Rightarrow> Event \<Rightarrow> Event"
  env_timestampNow :: "nat \<Rightarrow> nat"
  env_getPreferences :: "nat \<Rightarrow> nat \<Rightarrow> string \<Rightarrow> error + UserPreferences option"
  env_preferencesDocs :: "nat \<Rightarrow> nat \<Rightarrow> error + UserPreferences list"
  env_localTime :: "nat \<Rightarrow> nat \<Rightarrow> nat \<times> nat"
  env_gateway :: "nat \<Rightarrow> gateway"

text \<open>
  The calls that leave the engine, in order. Each carries the position of the event in
  the list and the event identifier.
\<close>

datatype Action =
    GetEventCall nat string
  | SaveEventCall nat string
  | GetTargetUsersCall nat string
  | SendEventNotificationCall nat string
  | GatewaySubmit nat string MulticastMessage
  | MarkEventNotifiedCall nat string

text \<open>
  The state of a run: the \<open>/events\<close> collection, the calls made so far and the local
  variable \<open>totalNotificationsSent\<close>.
\<close>

record EngineState =
  st_events :: "string \<rightharpoonup> Event"
  st_trace :: "Action list"
  st_total :: nat

subsection \<open>Event repository (services/firestore.ts)\<close>

definition getEvent :: "Env \<Rightarrow> nat \<Rightarrow> EngineState \<Rightarrow> string \<Rightarrow> error + Event option" where
  "getEvent env i s eventId =
     (case env_getEventThrows env i of
        Some err \<Rightarrow> Inl err
      | None \<Rightarrow> Inr (st_events s eventId))"

definition saveEvent :: "Env \<Rightarrow> nat \<Rightarrow> EngineState \<Rightarrow> Event \<Rightarrow> error + EngineState" where
  "saveEvent env i s event =
     (case env_saveEventThrows env i of
        Some err \<Rightarrow> Inl err
      | None \<Rightarrow>
          Inr (s\<lparr> st_events :=
                   (st_events s)(e_id event \<mapsto> env_merge env (st_events s (e_id event)) event) \<rparr>))"

text \<open>\<open>eventRef.update\<close> fails on a document that does not exist.\<close>

definition markEventNotified :: "Env \<Rightarrow> nat \<Rightarrow> EngineState \<Rightarrow> string \<Rightarrow> error + EngineState" where
  "markEventNotified env i s eventId =
     (case env_markThrows env i of
        Some err \<Rightarrow> Inl err
      | None \<Rightarrow>
          (case st_events s eventId of
             None \<Rightarrow> Inl (Thrown ''not-found'')
           | Some doc \<Rightarrow>
               Inr (s\<lparr> st_events :=
                        (st_events s)(eventId \<mapsto>
                           doc\<lparr> e_notified := True,
                                e_notifiedAt := Some (env_timestampNow env i) \<rparr>) \<rparr>)))"

subsection \<open>User preferences repository\<close>

definition allSports :: "Sport list" where
  "allSports = [NBA, NFL, MLB, NHL, SOCCER]"

text \<open>
  \<open>getUsersByTeam\<close>: the documents with \<open>enabled == true\<close>, filtered in memory to those
  with some sport whose \<open>teams\<close> list includes the team.
\<close>

definition getUsersByTeam :: "Env \<Rightarrow> nat \<Rightarrow> nat \<Rightarrow> string \<Rightarrow> error + UserPreferences list" where
  "getUsersByTeam env i j teamId =
     (case env_preferencesDocs env i j of
        Inl err \<Rightarrow> Inl err
      | Inr docs \<Rightarrow>
          Inr (filter
                 (\<lambda>prefs. \<exists>sport \<in> set allSports.
                    (case up_sports prefs sport of
                       None \<Rightarrow> False
                     | Some sportPrefs \<Rightarrow>
                         (case sp_teams sportPrefs of
                            None \<Rightarrow> False
                          | Some ts \<Rightarrow> teamId \<in> set ts)))
                 (filter up_enabled docs)))"

subsection \<open>The engine\<close>

fun loadUsers :: "Env \<Rightarrow> nat \<Rightarrow> string list \<Rightarrow> nat \<Rightarrow> UserPreferences list
    \<Rightarrow> error + UserPreferences list" where
  "loadUsers env i [] j users = Inr users"
| "loadUsers env i (userId # rest) j users =
     (case env_getPreferences env i j userId of
        Inl err \<Rightarrow> Inl err
      | Inr None \<Rightarrow> loadUsers env i rest (Suc j) users
      | Inr (Some prefs) \<Rightarrow> loadUsers env i rest (Suc j) (users @ [prefs]))"

fun loadTeamUsers :: "Env \<Rightarrow> nat \<Rightarrow> string list \<Rightarrow> nat \<Rightarrow> UserPreferences list
    \<Rightarrow> error + UserPreferences list" where
  "loadTeamUsers env i [] j allUsers = Inr allUsers"
| "loadTeamUsers env i (teamId # rest) j allUsers =
     (case getUsersByTeam env i j teamId of
        Inl err \<Rightarrow> Inl err
      | Inr teamUsers \<Rightarrow> loadTeamUsers env i rest (Suc j) (allUsers @ teamUsers))"

fun dedupLoop :: "UserPreferences list \<Rightarrow> string list \<Rightarrow> UserPreferences list
    \<Rightarrow> UserPreferences list" where
  "dedupLoop [] seen unique = unique"
| "dedupLoop (user # rest) seen unique =
     (if up_userId user \<notin> set seen
      then dedupLoop rest (up_userId user # seen) (unique @ [user])
      else dedupLoop rest seen unique)"

definition deduplicateUsers :: "UserPreferences list \<Rightarrow> UserPreferences list" where
  "deduplicateUsers users = dedupLoop users [] []"

text \<open>\<open>uniqueUsers.filter((user) => shouldNotifyUser(...))\<close>, one clock read per user.\<close>

fun filterUsers :: "Env \<Rightarrow> nat \<Rightarrow> Sport \<Rightarrow> EventType \<Rightarrow> string list option
    \<Rightarrow> UserPreferences list \<Rightarrow> nat \<Rightarrow> UserPreferences list" where
  "filterUsers env i sport eventType teamIds [] j = []"
| "filterUsers env i sport eventType teamIds (user # rest) j =
     (if shouldNotifyUser (env_localTime env i j) user sport eventType teamIds
      then user # filterUsers env i sport eventType teamIds rest (Suc j)
      else filterUsers env i sport eventType teamIds rest (Suc j))"

definition getTargetUsers :: "Env \<Rightarrow> nat \<Rightarrow> Event \<Rightarrow> error + UserPreferences list" where
  "getTargetUsers env i event =
     (let allUsersFlag = Option.bind (e_targetAudience event) ta_allUsers;
          userIds = Option.bind (e_targetAudience event) ta_userIds;
          teams = Option.bind (e_targetAudience event) ta_teams
      in if allUsersFlag = Some True then Inr []
         else if userIds \<noteq> None \<and> length (the userIds) > 0 then
           loadUsers env i (the userIds) 0 []
         else if teams \<noteq> None \<and> length (the teams) > 0 then
           (case loadTeamUsers env i (the teams) 0 [] of
              Inl err \<Rightarrow> Inl err
            | Inr allUsers \<Rightarrow>
                let uniqueUsers = deduplicateUsers allUsers;
                    sport = e_sport event;
                    eventType = e_type event;
                    filteredUsers = filterUsers env i sport eventType teams uniqueUsers 0
                in Inr filteredUsers)
         else Inr [])"

definition logCall :: "Action \<Rightarrow> EngineState \<Rightarrow> EngineState" where
  "logCall a s = s\<lparr> st_trace := st_trace s @ [a] \<rparr>"

text \<open>
  The body of the \<open>for\<close> loop of \<open>processEvents\<close> for the event at position \<open>i\<close>. An
  \<open>Inl\<close> of a collaborator is the exception caught by the \<open>catch\<close> of the body, which
  logs and goes on to the next event; what was written before the exception stays.
\<close>

definition processEvent :: "Env \<Rightarrow> nat \<Rightarrow> Event \<Rightarrow> EngineState \<Rightarrow> EngineState" where
  "processEvent env i event s =
     (let s1 = logCall (GetEventCall i (e_id event)) s
      in case getEvent env i s1 (e_id event) of
           Inl err \<Rightarrow> s1
         | Inr existingEvent \<Rightarrow>
             if (case existingEvent of None \<Rightarrow> False | Some ex \<Rightarrow> e_notified ex) then s1
             else
               let s2 = logCall (SaveEventCall i (e_id event)) s1
               in case saveEvent env i s2 event of
                    Inl err \<Rightarrow> s2
                  | Inr s3 \<Rightarrow>
                      let s4 = logCall (GetTargetUsersCall i (e_id event)) s3
                      in case getTargetUsers env i event of
                           Inl err \<Rightarrow> s4
                         | Inr targetUsers \<Rightarrow>
                             if length targetUsers = 0 then s4
                             else
                               let s5 = logCall (SendEventNotificationCall i (e_id event)) s4
                               in case sendEventNotification (env_gateway env i) event targetUsers of
                                    (Inl err, sent) \<Rightarrow>
                                      s5\<lparr> st_trace := st_trace s5
                                            @ map (GatewaySubmit i (e_id event)) sent \<rparr>
                                  | (Inr result, sent) \<Rightarrow>
                                      let s6 = s5\<lparr> st_trace := st_trace s5
                                                   @ map (GatewaySubmit i (e_id event)) sent,
                                                 st_total := st_total s5 + fst result \<rparr>;
                                          s7 = logCall (MarkEventNotifiedCall i (e_id event)) s6
                                      in case markEventNotified env i s7 (e_id event) of
                                           Inl err \<Rightarrow> s7
                                         | Inr s8 \<Rightarrow> s8)"

fun processLoop :: "Env \<Rightarrow> nat \<Rightarrow> Event list \<Rightarrow> EngineState \<Rightarrow> EngineState" where
  "processLoop env i [] s = s"
| "processLoop env i (event # rest) s = processLoop env (Suc i) rest (processEvent env i event s)"

text \<open>
  \<open>processEvents\<close> on the \<open>/events\<close> collection \<open>store\<close>: \<open>st_total\<close> of the result is
  the number returned, \<open>st_events\<close> the collection afterwards, \<open>st_trace\<close> the calls made.
\<close>

definition processEvents :: "Env \<Rightarrow> Event list \<Rightarrow> (string \<rightharpoonup> Event) \<Rightarrow> EngineState" where
  "processEvents env events store =
     (if length events = 0 then \<lparr> st_events = store, st_trace = [], st_total = 0 \<rparr>
      else processLoop env 0 events \<lparr> st_events = store, st_trace = [], st_total = 0 \<rparr>)"

section \<open>Auxiliary definitions for the statements\<close>

text \<open>An optional event as the list of events it contributes.\<close>

definition opt_list :: "'a option \<Rightarrow> 'a list" where
  "opt_list x = (case x of None \<Rightarrow> [] | Some v \<Rightarrow> [v])"

text \<open>An event without its wall-clock reads (\<open>detectedAt\<close>, \<open>occurredAt\<close>).\<close>

definition stripTimes :: "Event \<Rightarrow> Event" where
  "stripTimes e = e\<lparr> e_detectedAt := 0, e_occurredAt := map_option (\<lambda>_. 0) (e_occurredAt e) \<rparr>"

text \<open>
  Successive polling cycles of one game (\<open>pollSingleGame\<close>): each cycle runs the
  detector on the stored game and the fetched one, then stores the fetched one. The
  result lists the events of each cycle; \<open>clks n\<close> is the clock of cycle \<open>n\<close>.
\<close>

fun detectSequence :: "(nat \<Rightarrow> clock) \<Rightarrow> nat \<Rightarrow> Game option \<Rightarrow> Game list \<Rightarrow> Event list list" where
  "detectSequence clks n stored [] = []"
| "detectSequence clks n stored (fetched # rest) =
     detectCommonEvents (clks n) stored fetched # detectSequence clks (Suc n) (Some fetched) rest"

text \<open>A game of the Lakers against the Celtics, for concrete inputs.\<close>

definition exampleGame :: "GameStatus \<Rightarrow> int \<Rightarrow> int \<Rightarrow> int option \<Rightarrow> Game" where
  "exampleGame st hs as p =
     \<lparr> g_id = ''nba_0022600800'', g_sport = NBA, g_externalId = ''0022600800'',
       g_scheduledTime = 0, g_lastUpdated = 0, g_status = st, g_statusDetail = None,
       g_homeTeam = ''Los Angeles Lakers'', g_homeAbbr = ''LAL'', g_homeScore = hs,
       g_homeRecord = None,
       g_awayTeam = ''Boston Celtics'', g_awayAbbr = ''BOS'', g_awayScore = as,
       g_awayRecord = None,
       g_period = p, g_clock = None, g_isPlayoff = None, g_notificationsSent = None \<rparr>"

text \<open>Preferences of one user for the NBA, for concrete inputs.\<close>

definition examplePrefs :: "SportPrefs \<Rightarrow> QuietHours option \<Rightarrow> UserPreferences" where
  "examplePrefs sp qh =
     \<lparr> up_userId = ''u1'', up_fcmToken = ''token-u1'', up_platform = Some ios,
       up_appVersion = None, up_lastActive = None, up_enabled = True,
       up_sports = [NBA \<mapsto> sp], up_eventTypePreferences = None, up_quietHours = qh,
       up_isPremium = None, up_subscriptionExpiry = None, up_createdAt = 0, up_updatedAt = 0 \<rparr>"

text \<open>Favorite team LAL, rival BOS, and a legacy team list.\<close>

definition rivalryPrefs :: "string list option \<Rightarrow> SportPrefs" where
  "rivalryPrefs legacy =
     \<lparr> sp_enabled = True, sp_teams = legacy, sp_favoriteTeam = Some ''LAL'',
       sp_rivalTeams = Some [''BOS''], sp_eventTypes = None \<rparr>"

definition plainPrefs :: SportPrefs where
  "plainPrefs = \<lparr> sp_enabled = True, sp_teams = None, sp_favoriteTeam = None,
       sp_rivalTeams = None, sp_eventTypes = None \<rparr>"

definition overnightQuiet :: QuietHours where
  "overnightQuiet = \<lparr> qh_enabled = True, qh_start = ''22:00'', qh_end = ''08:00'',
       qh_timezone = None \<rparr>"

text \<open>
  The tokens of a batch that the gateway's response reports as permanently invalid:
  those whose response is a failure with one of the two invalid-token codes.
\<close>

definition reportedInvalid :: "string list \<Rightarrow> BatchResponse \<Rightarrow> string list" where
  "reportedInvalid batch response =
     map fst (filter (\<lambda>(token, resp). \<not> sr_success resp \<and> isInvalidTokenCode (sr_errorCode resp))
                (zip batch (br_responses response)))"

text \<open>
  The contract of \<open>sendEachForMulticast\<close>: one response per token, in order, and the
  two counts are the numbers of successful and failed responses.
\<close>

definition wellFormedResponse :: "string list \<Rightarrow> BatchResponse \<Rightarrow> bool" where
  "wellFormedResponse batch response \<longleftrightarrow>
     length (br_responses response) = length batch \<and>
     br_successCount response = length (filter sr_success (br_responses response)) \<and>
     br_failureCount response = length (filter (\<lambda>resp. \<not> sr_success resp) (br_responses response))"

text \<open>The response of the gateway to the \<open>k\<close>-th batch, when it does not throw.\<close>

definition responseTo ::
  "gateway \<Rightarrow> NotificationPayload \<Rightarrow> NotificationOptions option \<Rightarrow> nat \<Rightarrow> string list
   \<Rightarrow> BatchResponse" where
  "responseTo gw payload options k batch = projr (gw k (buildMessage batch payload options))"

text \<open>
  A payload, and a gateway that answers every batch with one failure per token, each
  with the code of an unregistered token.
\<close>

definition examplePayload :: NotificationPayload where
  "examplePayload = \<lparr> np_title = ''Game Started'', np_body = ''BOS @ LAL is now live!'',
       np_imageUrl = None, np_data = None \<rparr>"

definition rejectingGateway :: gateway where
  "rejectingGateway k message =
     Inr \<lparr> br_successCount = 0,
           br_failureCount = length (mm_tokens message),
           br_responses =
             map (\<lambda>token. \<lparr> sr_success = False,
                             sr_errorCode = Some ''messaging/registration-token-not-registered'' \<rparr>)
               (mm_tokens message) \<rparr>"

text \<open>The position in the event list and the event identifier that a call carries.\<close>

fun actionIndex :: "Action \<Rightarrow> nat" where
  "actionIndex (GetEventCall i eventId) = i"
| "actionIndex (SaveEventCall i eventId) = i"
| "actionIndex (GetTargetUsersCall i eventId) = i"
| "actionIndex (SendEventNotificationCall i eventId) = i"
| "actionIndex (GatewaySubmit i eventId message) = i"
| "actionIndex (MarkEventNotifiedCall i eventId) = i"

fun actionEventId :: "Action \<Rightarrow> string" where
  "actionEventId (GetEventCall i eventId) = eventId"
| "actionEventId (SaveEventCall i eventId) = eventId"
| "actionEventId (GetTargetUsersCall i eventId) = eventId"
| "actionEventId (SendEventNotificationCall i eventId) = eventId"
| "actionEventId (GatewaySubmit i eventId message) = eventId"
| "actionEventId (MarkEventNotifiedCall i eventId) = eventId"

text \<open>
  Collaborators for concrete runs: a gateway that delivers to every token, a store that
  never fails and keeps the event written, one subscriber of LAL with rival BOS, and the
  time 12:00. \<open>saveFailsAt n\<close> is the same with \<open>saveEvent\<close> throwing for the event at
  position \<open>n\<close>.
\<close>

definition acceptingGateway :: gateway where
  "acceptingGateway k message =
     Inr \<lparr> br_successCount = length (mm_tokens message),
           br_failureCount = 0,
           br_responses =
             map (\<lambda>token. \<lparr> sr_success = True, sr_errorCode = None \<rparr>) (mm_tokens message) \<rparr>"

definition subscriber :: UserPreferences where
  "subscriber = examplePrefs (rivalryPrefs (Some [''LAL''])) None"

definition exampleEnv :: Env where
  "exampleEnv =
     \<lparr> env_getEventThrows = (\<lambda>i. None),
       env_saveEventThrows = (\<lambda>i. None),
       env_markThrows = (\<lambda>i. None),
       env_merge = (\<lambda>old event. event),
       env_timestampNow = (\<lambda>i. 1000),
       env_getPreferences = (\<lambda>i j userId. Inr None),
       env_preferencesDocs = (\<lambda>i j. Inr [subscriber]),
       env_localTime = (\<lambda>i j. (12, 0)),
       env_gateway = (\<lambda>i. acceptingGateway) \<rparr>"

definition saveFailsAt :: "nat \<Rightarrow> Env" where
  "saveFailsAt n =
     exampleEnv\<lparr> env_saveEventThrows :=
                   (\<lambda>i. if i = n then Some (Thrown ''unavailable'') else None) \<rparr>"

text \<open>The events of the pair (SCHEDULED, 0-0), (LIVE, 0-0), and of a first observation
  of the live game at 122-97 in the fourth period.\<close>

definition startEvents :: "Event list" where
  "startEvents =
     detectCommonEvents (\<lambda>k. 0) (Some (exampleGame SCHEDULED 0 0 None)) (exampleGame LIVE 0 0 None)"

definition threeEvents :: "Event list" where
  "threeEvents = detectCommonEvents (\<lambda>k. 0) None (exampleGame LIVE 122 97 (Some 4))"

text \<open>The event of \<open>startEvents\<close>, written out.\<close>

definition startEvent :: Event where
  "startEvent =
     \<lparr> e_id = ''nba_0022600800_GAME_START'',
       e_type = GAME_START,
       e_priority = HIGH,
       e_gameId = ''nba_0022600800'',
       e_sport = NBA,
       e_detectedAt = 0,
       e_occurredAt = Some 0,
       e_title = ''Game Started'',
       e_message = ''BOS @ LAL is now live!'',
       e_notified = False,
       e_notifiedAt = None,
       e_metadata = Some [(''scheduledTime'', MDate 0)],
       e_targetAudience = Some \<lparr> ta_allUsers = None, ta_userIds = None,
                                  ta_teams = Some [''LAL'', ''BOS''], ta_tags = None \<rparr> \<rparr>"

text \<open>The message that \<open>sendEventNotification\<close> builds for \<open>startEvent\<close> and one token.\<close>

definition startMessage :: MulticastMessage where
  "startMessage =
     buildMessage [''token-u1'']
       \<lparr> np_title = ''Game Started'', np_body = ''BOS @ LAL is now live!'', np_imageUrl = None,
         np_data = Some [(''eventId'', ''nba_0022600800_GAME_START''),
                         (''eventType'', ''GAME_START''),
                         (''gameId'', ''nba_0022600800''), (''sport'', ''NBA'')] \<rparr>
       (Some \<lparr> no_priority = Some ''high'', no_sound = Some ''default'', no_badge = None,
               no_contentAvailable = None \<rparr>)"

text \<open>
  The calls that the loop body makes for the event at position \<open>i\<close>, started in
  state \<open>s\<close>: what \<open>processEvent\<close> appends to the trace.
\<close>

definition eventCalls :: "Env \<Rightarrow> nat \<Rightarrow> Event \<Rightarrow> EngineState \<Rightarrow> Action list" where
  "eventCalls env i event s = drop (length (st_trace s)) (st_trace (processEvent env i event s))"

text \<open>A call with its position in the event list renumbered.\<close>

fun reindexAction :: "(nat \<Rightarrow> nat) \<Rightarrow> Action \<Rightarrow> Action" where
  "reindexAction f (GetEventCall i eventId) = GetEventCall (f i) eventId"
| "reindexAction f (SaveEventCall i eventId) = SaveEventCall (f i) eventId"
| "reindexAction f (GetTargetUsersCall i eventId) = GetTargetUsersCall (f i) eventId"
| "reindexAction f (SendEventNotificationCall i eventId) = SendEventNotificationCall (f i) eventId"
| "reindexAction f (GatewaySubmit i eventId message) = GatewaySubmit (f i) eventId message"
| "reindexAction f (MarkEventNotifiedCall i eventId) = MarkEventNotifiedCall (f i) eventId"

text \<open>
  The list of events without the one at position \<open>i\<close>, and the collaborators seen by a
  run on that list: position \<open>j\<close> of the shorter list is position \<open>skipIndex i j\<close> of
  the full one.
\<close>

definition skipIndex :: "nat \<Rightarrow> nat \<Rightarrow> nat" where
  "skipIndex i j = (if j < i then j else Suc j)"

definition withoutEvent :: "nat \<Rightarrow> Event list \<Rightarrow> Event list" where
  "withoutEvent i events = take i events @ drop (Suc i) events"

definition envWithoutEvent :: "nat \<Rightarrow> Env \<Rightarrow> Env" where
  "envWithoutEvent i env =
     \<lparr> env_getEventThrows = (\<lambda>j. env_getEventThrows env (skipIndex i j)),
       env_saveEventThrows = (\<lambda>j. env_saveEventThrows env (skipIndex i j)),
       env_markThrows = (\<lambda>j. env_markThrows env (skipIndex i j)),
       env_merge = env_merge env,
       env_timestampNow = (\<lambda>j. env_timestampNow env (skipIndex i j)),
       env_getPreferences = (\<lambda>j. env_getPreferences env (skipIndex i j)),
       env_preferencesDocs = (\<lambda>j. env_preferencesDocs env (skipIndex i j)),
       env_localTime = (\<lambda>j. env_localTime env (skipIndex i j)),
       env_gateway = (\<lambda>j. env_gateway env (skipIndex i j)) \<rparr>"

section \<open>Properties of the event detector\<close>

lemma opt_list_simps [simp]: "opt_list None = []" "opt_list (Some v) = [v]"
  by (simp_all add: opt_list_def)

lemma map_opt_list: "map f (opt_list x) = opt_list (map_option f x)"
  by (cases x) simp_all

lemma push_opt_eq: "push_opt events ev = events @ opt_list ev"
  by (simp add: push_opt_def opt_list_def split: option.splits)

lemma detectCommonEvents_eq:
  "detectCommonEvents clk oldGame newGame =
     opt_list (detectGameStart clk oldGame newGame) @
     opt_list (detectGameEnd clk oldGame newGame) @
     (if g_status newGame = LIVE then
        opt_list (detectBlowout clk oldGame newGame) @
        opt_list (detectCloseGame clk oldGame newGame) @
        opt_list (detectFinalPeriod clk oldGame newGame)
      else []) @
     opt_list (detectStatusChange clk oldGame newGame)"
  by (simp add: detectCommonEvents_def push_opt_eq isGameLive_def Let_def)

subsection \<open>What each detector returns\<close>

lemma detectGameStart_Some:
  "detectGameStart clk oldGame newGame = Some e \<Longrightarrow>
     e_type e = GAME_START \<and> e_priority e = HIGH \<and>
     e_id e = generateEventId (g_id newGame) GAME_START None"
  by (auto simp: detectGameStart_def Let_def split: if_splits)

lemma detectGameEnd_Some:
  "detectGameEnd clk oldGame newGame = Some e \<Longrightarrow>
     e_type e = GAME_END \<and> e_priority e = HIGH \<and>
     e_id e = generateEventId (g_id newGame) GAME_END None"
  by (auto simp: detectGameEnd_def Let_def split: if_splits)

lemma detectBlowout_Some:
  "detectBlowout clk oldGame newGame = Some e \<Longrightarrow>
     e_type e = BLOWOUT \<and> e_priority e = MEDIUM \<and>
     e_id e = generateEventId (g_id newGame) BLOWOUT None"
  by (auto simp: detectBlowout_def Let_def split: if_splits)

lemma detectCloseGame_Some:
  "detectCloseGame clk oldGame newGame = Some e \<Longrightarrow>
     e_type e = CLOSE_GAME \<and> e_priority e = HIGH \<and>
     e_id e = generateEventId (g_id newGame) CLOSE_GAME None"
  by (auto simp: detectCloseGame_def Let_def split: if_splits option.splits)

lemma detectFinalPeriod_Some:
  "detectFinalPeriod clk oldGame newGame = Some e \<Longrightarrow>
     e_type e = FINAL_PERIOD \<and> e_priority e = MEDIUM \<and>
     e_id e = generateEventId (g_id newGame) FINAL_PERIOD None"
  by (auto simp: detectFinalPeriod_def Let_def split: if_splits option.splits)

lemma detectStatusChange_Some:
  "detectStatusChange clk oldGame newGame = Some e \<Longrightarrow>
     (e_type e = GAME_POSTPONED \<or> e_type e = GAME_CANCELLED) \<and> e_priority e = MEDIUM \<and>
     e_id e = generateEventId (g_id newGame) (e_type e) None"
  by (auto simp: detectStatusChange_def Let_def split: if_splits)

lemma mem_detectCommonEvents:
  "e \<in> set (detectCommonEvents clk previous current) \<Longrightarrow>
     detectGameStart clk previous current = Some e \<or>
     detectGameEnd clk previous current = Some e \<or>
     detectBlowout clk previous current = Some e \<or>
     detectCloseGame clk previous current = Some e \<or>
     detectFinalPeriod clk previous current = Some e \<or>
     detectStatusChange clk previous current = Some e"
  by (auto simp: detectCommonEvents_eq opt_list_def split: option.splits if_splits)

lemma id_of_detected:
  assumes "e \<in> set (detectCommonEvents clk previous current)"
  shows "e_id e = generateEventId (g_id current) (e_type e) None"
  using mem_detectCommonEvents[OF assms]
    detectGameStart_Some[of clk previous current e]
    detectGameEnd_Some[of clk previous current e]
    detectBlowout_Some[of clk previous current e]
    detectCloseGame_Some[of clk previous current e]
    detectFinalPeriod_Some[of clk previous current e]
    detectStatusChange_Some[of clk previous current e]
  by auto

lemma start_priority:
  assumes "e \<in> set (detectCommonEvents clk previous current)" "e_type e = GAME_START"
  shows "e_priority e = HIGH"
  using mem_detectCommonEvents[OF assms(1)] assms(2)
    detectGameStart_Some[of clk previous current e]
    detectGameEnd_Some[of clk previous current e]
    detectBlowout_Some[of clk previous current e]
    detectCloseGame_Some[of clk previous current e]
    detectFinalPeriod_Some[of clk previous current e]
    detectStatusChange_Some[of clk previous current e]
  by auto

subsection \<open>The event types of a detection, in order\<close>

lemma type_start:
  "map e_type (opt_list (detectGameStart clk previous current)) =
     (if g_status current = LIVE \<and> (case previous of None \<Rightarrow> True | Some p \<Rightarrow> g_status p \<noteq> LIVE)
      then [GAME_START] else [])"
  by (simp add: detectGameStart_def Let_def split: option.splits)

lemma type_end:
  "map e_type (opt_list (detectGameEnd clk previous current)) =
     (if g_status current = FINAL \<and> (case previous of None \<Rightarrow> False | Some p \<Rightarrow> g_status p = LIVE)
      then [GAME_END] else [])"
  by (simp add: detectGameEnd_def Let_def split: option.splits)

lemma type_blowout:
  "map e_type (opt_list (detectBlowout clk previous current)) =
     (if 20 \<le> getPointDifferential current \<and>
         (case previous of None \<Rightarrow> True | Some p \<Rightarrow> getPointDifferential p < 20)
      then [BLOWOUT] else [])"
  by (auto simp: detectBlowout_def Let_def BLOWOUT_POINT_DIFFERENTIAL_def split: option.splits)

lemma type_close:
  "map e_type (opt_list (detectCloseGame clk previous current)) =
     (if 1 \<le> getPointDifferential current \<and> getPointDifferential current \<le> 5 \<and>
         (case g_period current of None \<Rightarrow> False | Some p \<Rightarrow> 4 \<le> p) \<and>
         (case previous of None \<Rightarrow> True | Some p \<Rightarrow> 5 < getPointDifferential p)
      then [CLOSE_GAME] else [])"
  by (auto simp: detectCloseGame_def Let_def CLOSE_GAME_POINT_DIFFERENTIAL_def
        getPointDifferential_def split: option.splits)

lemma type_final:
  "map e_type (opt_list (detectFinalPeriod clk previous current)) =
     (if g_period current = Some 4 \<and> Option.bind previous g_period \<noteq> Some 4
      then [FINAL_PERIOD] else [])"
  by (auto simp: detectFinalPeriod_def Let_def split: option.splits)

lemma type_status:
  "map e_type (opt_list (detectStatusChange clk previous current)) =
     (if g_status current = POSTPONED \<and> map_option g_status previous \<noteq> Some POSTPONED
      then [GAME_POSTPONED]
      else if g_status current = CANCELLED \<and> map_option g_status previous \<noteq> Some CANCELLED
      then [GAME_CANCELLED] else [])"
  by (simp add: detectStatusChange_def)

lemma types_detectCommonEvents:
  "map e_type (detectCommonEvents clk previous current) =
     (if g_status current = LIVE \<and> (case previous of None \<Rightarrow> True | Some p \<Rightarrow> g_status p \<noteq> LIVE)
      then [GAME_START] else []) @
     (if g_status current = FINAL \<and> (case previous of None \<Rightarrow> False | Some p \<Rightarrow> g_status p = LIVE)
      then [GAME_END] else []) @
     (if g_status current = LIVE then
        (if 20 \<le> getPointDifferential current \<and>
            (case previous of None \<Rightarrow> True | Some p \<Rightarrow> getPointDifferential p < 20)
         then [BLOWOUT] else []) @
        (if 1 \<le> getPointDifferential current \<and> getPointDifferential current \<le> 5 \<and>
            (case g_period current of None \<Rightarrow> False | Some p \<Rightarrow> 4 \<le> p) \<and>
            (case previous of None \<Rightarrow> True | Some p \<Rightarrow> 5 < getPointDifferential p)
         then [CLOSE_GAME] else []) @
        (if g_period current = Some 4 \<and> Option.bind previous g_period \<noteq> Some 4
         then [FINAL_PERIOD] else [])
      else []) @
     (if g_status current = POSTPONED \<and> map_option g_status previous \<noteq> Some POSTPONED
      then [GAME_POSTPONED]
      else if g_status current = CANCELLED \<and> map_option g_status previous \<noteq> Some CANCELLED
      then [GAME_CANCELLED] else [])"
  unfolding detectCommonEvents_eq map_append if_distrib[of "map e_type"] list.map
    type_start type_end type_blowout type_close type_final type_status
  by (rule refl)

lemma count_type:
  "length (filter (\<lambda>e. e_type e = T) es) = count_list (map e_type es) T"
  by (induction es) auto

lemma count_start:
  "length (filter (\<lambda>e. e_type e = GAME_START) (detectCommonEvents clk previous current)) =
     (if g_status current = LIVE \<and> (case previous of None \<Rightarrow> True | Some p \<Rightarrow> g_status p \<noteq> LIVE)
      then 1 else 0)"
  unfolding count_type types_detectCommonEvents by simp

lemma count_blowout:
  "g_status current = LIVE \<Longrightarrow> 20 \<le> getPointDifferential current \<Longrightarrow>
   length (filter (\<lambda>e. e_type e = BLOWOUT) (detectCommonEvents clk previous current)) =
     (if (case previous of None \<Rightarrow> True | Some p \<Rightarrow> getPointDifferential p < 20)
      then 1 else 0)"
  unfolding count_type types_detectCommonEvents by simp

lemma count_close:
  "length (filter (\<lambda>e. e_type e = CLOSE_GAME) (detectCommonEvents clk previous current)) =
     (if g_status current = LIVE \<and>
         1 \<le> getPointDifferential current \<and> getPointDifferential current \<le> 5 \<and>
         (case g_period current of None \<Rightarrow> False | Some p \<Rightarrow> 4 \<le> p) \<and>
         (case previous of None \<Rightarrow> True | Some p \<Rightarrow> 5 < getPointDifferential p)
      then 1 else 0)"
  unfolding count_type types_detectCommonEvents by simp

lemma distinct_flags:
  "distinct ((if a then [GAME_START] else []) @ (if b then [GAME_END] else []) @
     (if l then (if c then [BLOWOUT] else []) @ (if d then [CLOSE_GAME] else []) @
                (if f then [FINAL_PERIOD] else []) else []) @
     (if g then [GAME_POSTPONED] else if h then [GAME_CANCELLED] else []))"
  by (cases a; cases b; cases c; cases d; cases f; cases g; cases h; cases l) simp_all

lemma distinct_types: "distinct (map e_type (detectCommonEvents clk previous current))"
  unfolding types_detectCommonEvents by (rule distinct_flags)

subsection \<open>Identifiers\<close>

lemma eventTypeStr_inj: "eventTypeStr a = eventTypeStr b \<Longrightarrow> a = b"
  by (cases a; cases b) simp_all

lemma generateEventId_None: "generateEventId gid t None = gid @ ''_'' @ eventTypeStr t"
  by (simp add: generateEventId_def)

lemma generateEventId_inj: "generateEventId gid a None = generateEventId gid b None \<Longrightarrow> a = b"
  by (simp add: generateEventId_None eventTypeStr_inj)

lemma distinct_ids: "distinct (map e_id (detectCommonEvents clk previous current))"
proof -
  let ?es = "detectCommonEvents clk previous current"
  let ?f = "\<lambda>t. generateEventId (g_id current) t None"
  have eq: "map e_id ?es = map ?f (map e_type ?es)"
    by (simp add: id_of_detected)
  have inj: "inj_on ?f (set (map e_type ?es))"
    by (rule inj_onI) (rule generateEventId_inj)
  have "distinct (map ?f (map e_type ?es))"
    unfolding distinct_map[of ?f "map e_type ?es"]
    using distinct_types[of clk previous current] inj by (rule conjI)
  then show ?thesis
    by (simp only: eq)
qed

subsection \<open>Independence of the clock\<close>

lemma strip_start:
  "map_option stripTimes (detectGameStart clk1 previous current) =
   map_option stripTimes (detectGameStart clk2 previous current)"
  by (simp add: detectGameStart_def stripTimes_def Let_def)

lemma strip_end:
  "map_option stripTimes (detectGameEnd clk1 previous current) =
   map_option stripTimes (detectGameEnd clk2 previous current)"
  by (simp add: detectGameEnd_def stripTimes_def Let_def)

lemma strip_blowout:
  "map_option stripTimes (detectBlowout clk1 previous current) =
   map_option stripTimes (detectBlowout clk2 previous current)"
  by (simp add: detectBlowout_def stripTimes_def Let_def)

lemma strip_close:
  "map_option stripTimes (detectCloseGame clk1 previous current) =
   map_option stripTimes (detectCloseGame clk2 previous current)"
  by (simp add: detectCloseGame_def stripTimes_def Let_def split: option.splits)

lemma strip_final:
  "map_option stripTimes (detectFinalPeriod clk1 previous current) =
   map_option stripTimes (detectFinalPeriod clk2 previous current)"
  by (simp add: detectFinalPeriod_def stripTimes_def Let_def split: option.splits)

lemma strip_status:
  "map_option stripTimes (detectStatusChange clk1 previous current) =
   map_option stripTimes (detectStatusChange clk2 previous current)"
  by (simp add: detectStatusChange_def stripTimes_def)

lemma strip_detectCommonEvents:
  "map stripTimes (detectCommonEvents clk1 previous current) =
   map stripTimes (detectCommonEvents clk2 previous current)"
  unfolding detectCommonEvents_eq map_append if_distrib[of "map stripTimes"] list.map map_opt_list
    strip_start[of clk1 previous current clk2] strip_end[of clk1 previous current clk2]
    strip_blowout[of clk1 previous current clk2] strip_close[of clk1 previous current clk2]
    strip_final[of clk1 previous current clk2] strip_status[of clk1 previous current clk2]
  by (rule refl)

lemma e_id_stripTimes: "e_id (stripTimes e) = e_id e"
  by (simp add: stripTimes_def)

lemma ids_clock_independent:
  "map e_id (detectCommonEvents clk1 previous current) =
   map e_id (detectCommonEvents clk2 previous current)"
proof -
  have "map e_id (detectCommonEvents clk previous current) =
        map e_id (map stripTimes (detectCommonEvents clk previous current))" for clk
    by (simp add: e_id_stripTimes)
  then show ?thesis
    using strip_detectCommonEvents[of clk1 previous current clk2] by metis
qed

lemma detectSequence_blowout_steady:
  assumes "\<forall>g \<in> set gs. g_status g = LIVE \<and> 20 \<le> getPointDifferential g"
    and "20 \<le> getPointDifferential p"
  shows "map (\<lambda>es. length (filter (\<lambda>e. e_type e = BLOWOUT) es))
           (detectSequence clks n (Some p) gs) = replicate (length gs) 0"
  using assms
proof (induction gs arbitrary: n p)
  case Nil
  then show ?case by simp
next
  case (Cons g gs)
  have g: "g_status g = LIVE" "20 \<le> getPointDifferential g"
    using Cons.prems(1) by simp_all
  have rest: "\<forall>g \<in> set gs. g_status g = LIVE \<and> 20 \<le> getPointDifferential g"
    using Cons.prems(1) by simp
  have "length (filter (\<lambda>e. e_type e = BLOWOUT) (detectCommonEvents (clks n) (Some p) g)) = 0"
    using count_blowout[OF g, of "clks n" "Some p"] Cons.prems(2) by simp
  then show ?case
    using Cons.IH[OF rest g(2), of "Suc n"] by simp
qed

section \<open>Claims about the event detector\<close>

text \<open>
  C6. For every snapshot pair, the list returned by \<open>detectCommonEvents\<close> holds a
  \<open>GAME_START\<close> event exactly when the current status is \<open>LIVE\<close> and the previous
  snapshot is absent or not \<open>LIVE\<close>; it then holds exactly one, and every \<open>GAME_START\<close>
  event has priority \<open>HIGH\<close>.
\<close>

theorem game_start_detection:
  "length (filter (\<lambda>e. e_type e = GAME_START) (detectCommonEvents clk previous current)) =
     (if g_status current = LIVE \<and>
         (case previous of None \<Rightarrow> True | Some p \<Rightarrow> g_status p \<noteq> LIVE)
      then 1 else 0)
   \<and> (\<forall>e \<in> set (detectCommonEvents clk previous current).
         e_type e = GAME_START \<longrightarrow> e_priority e = HIGH)"
  using count_start[of clk previous current] start_priority[of _ clk previous current]
  by blast

text \<open>
  The pair (status = SCHEDULED, 0-0), (status = LIVE, 0-0) and the first observation of
  a live game each give one \<open>GAME_START\<close> event.
\<close>

theorem game_start_detection_witness:
  "length (filter (\<lambda>e. e_type e = GAME_START)
     (detectCommonEvents (\<lambda>k. 0) (Some (exampleGame SCHEDULED 0 0 None))
        (exampleGame LIVE 0 0 None))) = 1
   \<and> length (filter (\<lambda>e. e_type e = GAME_START)
     (detectCommonEvents (\<lambda>k. 0) None (exampleGame LIVE 0 0 None))) = 1"
  using game_start_detection[of "\<lambda>k. 0" "Some (exampleGame SCHEDULED 0 0 None)"
          "exampleGame LIVE 0 0 None"]
    game_start_detection[of "\<lambda>k. 0" None "exampleGame LIVE 0 0 None"]
  by (simp add: exampleGame_def)

text \<open>
  C2. Blowout detection is edge-triggered. For a current snapshot that is \<open>LIVE\<close> with an
  absolute differential of at least 20, \<open>detectCommonEvents\<close> returns exactly one
  \<open>BLOWOUT\<close> event when the previous snapshot is absent or had a differential below 20,
  and none when the previous differential was already 20 or more. Hence over successive
  polling cycles whose snapshots all stay \<open>LIVE\<close> at or above the threshold, starting
  from an absent or below-threshold snapshot, the first cycle gives one \<open>BLOWOUT\<close> event
  and every later cycle gives none.
\<close>

theorem blowout_edge_triggered:
  "(g_status current = LIVE \<and> 20 \<le> getPointDifferential current \<longrightarrow>
      length (filter (\<lambda>e. e_type e = BLOWOUT) (detectCommonEvents clk previous current)) =
        (case previous of
           None \<Rightarrow> 1
         | Some p \<Rightarrow> if getPointDifferential p < 20 then 1 else 0))
   \<and> ((\<forall>g \<in> set (g0 # gs). g_status g = LIVE \<and> 20 \<le> getPointDifferential g) \<and>
       (case previous of None \<Rightarrow> True | Some p \<Rightarrow> getPointDifferential p < 20) \<longrightarrow>
      map (\<lambda>es. length (filter (\<lambda>e. e_type e = BLOWOUT) es))
        (detectSequence clks n previous (g0 # gs)) = 1 # replicate (length gs) 0)"
proof (intro conjI impI)
  assume "g_status current = LIVE \<and> 20 \<le> getPointDifferential current"
  then show "length (filter (\<lambda>e. e_type e = BLOWOUT) (detectCommonEvents clk previous current)) =
        (case previous of None \<Rightarrow> 1 | Some p \<Rightarrow> if getPointDifferential p < 20 then 1 else 0)"
    using count_blowout[of current clk previous] by (simp split: option.splits)
next
  assume a: "(\<forall>g \<in> set (g0 # gs). g_status g = LIVE \<and> 20 \<le> getPointDifferential g) \<and>
       (case previous of None \<Rightarrow> True | Some p \<Rightarrow> getPointDifferential p < 20)"
  have g0: "g_status g0 = LIVE" "20 \<le> getPointDifferential g0"
    using a by simp_all
  have rest: "\<forall>g \<in> set gs. g_status g = LIVE \<and> 20 \<le> getPointDifferential g"
    using a by simp
  have first: "length (filter (\<lambda>e. e_type e = BLOWOUT)
      (detectCommonEvents (clks n) previous g0)) = 1"
    using count_blowout[OF g0, of "clks n" previous] a by simp
  show "map (\<lambda>es. length (filter (\<lambda>e. e_type e = BLOWOUT) es))
        (detectSequence clks n previous (g0 # gs)) = 1 # replicate (length gs) 0"
    using first detectSequence_blowout_steady[OF rest g0(2), of clks "Suc n"] by simp
qed

text \<open>
  Three consecutive live snapshots at 112-90, 115-92 and 120-95, first seen after 108-90:
  one \<open>BLOWOUT\<close> event in the first cycle, none in the next two.
\<close>

theorem blowout_edge_triggered_witness:
  "map (\<lambda>es. length (filter (\<lambda>e. e_type e = BLOWOUT) es))
     (detectSequence (\<lambda>n k. 0) 0 (Some (exampleGame LIVE 108 90 (Some 4)))
        [exampleGame LIVE 112 90 (Some 4), exampleGame LIVE 115 92 (Some 4),
         exampleGame LIVE 120 95 (Some 4)]) = [1, 0, 0]
   \<and> length (filter (\<lambda>e. e_type e = BLOWOUT)
        (detectCommonEvents (\<lambda>k. 0) (Some (exampleGame LIVE 112 90 (Some 4)))
           (exampleGame LIVE 115 92 (Some 4)))) = 0"
  using blowout_edge_triggered[of "exampleGame LIVE 115 92 (Some 4)" "\<lambda>k. 0"
          "Some (exampleGame LIVE 112 90 (Some 4))" "exampleGame LIVE 112 90 (Some 4)"
          "[exampleGame LIVE 115 92 (Some 4), exampleGame LIVE 120 95 (Some 4)]"
          "\<lambda>n k. 0" 0]
    blowout_edge_triggered[of "exampleGame LIVE 115 92 (Some 4)" "\<lambda>k. 0"
          "Some (exampleGame LIVE 108 90 (Some 4))" "exampleGame LIVE 112 90 (Some 4)"
          "[exampleGame LIVE 115 92 (Some 4), exampleGame LIVE 120 95 (Some 4)]"
          "\<lambda>n k. 0" 0]
  by (simp add: exampleGame_def getPointDifferential_def)

text \<open>
  C3. A tied live game in the fourth period, whose previous differential was 10, gets no
  \<open>CLOSE_GAME\<close> event: \<open>detectCloseGame\<close> leaves at \<open>!differential\<close>, which is true for
  the differential 0, and the detector as a whole returns no event for this pair. With
  the same previous snapshot and a current score of 100-99 the detector returns the
  \<open>CLOSE_GAME\<close> event.
\<close>

theorem close_game_tied_not_detected:
  "detectCloseGame (\<lambda>k. 0) (Some (exampleGame LIVE 100 90 (Some 4)))
     (exampleGame LIVE 100 100 (Some 4)) = None
   \<and> detectCommonEvents (\<lambda>k. 0) (Some (exampleGame LIVE 100 90 (Some 4)))
       (exampleGame LIVE 100 100 (Some 4)) = []
   \<and> map e_type (detectCommonEvents (\<lambda>k. 0) (Some (exampleGame LIVE 100 90 (Some 4)))
       (exampleGame LIVE 100 99 (Some 4))) = [CLOSE_GAME]"
proof (intro conjI)
  show "detectCloseGame (\<lambda>k. 0) (Some (exampleGame LIVE 100 90 (Some 4)))
     (exampleGame LIVE 100 100 (Some 4)) = None"
    by (simp add: detectCloseGame_def getPointDifferential_def exampleGame_def)
  have "map e_type (detectCommonEvents (\<lambda>k. 0) (Some (exampleGame LIVE 100 90 (Some 4)))
       (exampleGame LIVE 100 100 (Some 4))) = []"
    unfolding types_detectCommonEvents
    by (simp add: getPointDifferential_def exampleGame_def)
  then show "detectCommonEvents (\<lambda>k. 0) (Some (exampleGame LIVE 100 90 (Some 4)))
       (exampleGame LIVE 100 100 (Some 4)) = []"
    by simp
  show "map e_type (detectCommonEvents (\<lambda>k. 0) (Some (exampleGame LIVE 100 90 (Some 4)))
       (exampleGame LIVE 100 99 (Some 4))) = [CLOSE_GAME]"
    unfolding types_detectCommonEvents
    by (simp add: getPointDifferential_def exampleGame_def)
qed

text \<open>
  C7. Detection is idempotent. For a fixed snapshot pair, two runs of
  \<open>detectCommonEvents\<close>, whatever the wall clock reads in each, return the same
  identifiers in the same order and the same events in every field but the clock reads
  \<open>detectedAt\<close> and \<open>occurredAt\<close>. Every identifier is \<open>generateEventId\<close> of the game
  identifier and the event type, and \<open>generateEventId\<close> is the game identifier, the type
  name and the non-empty suffix, if any, joined by underscores.
\<close>

theorem detection_idempotent:
  "map e_id (detectCommonEvents clk1 previous current) =
     map e_id (detectCommonEvents clk2 previous current)
   \<and> map stripTimes (detectCommonEvents clk1 previous current) =
       map stripTimes (detectCommonEvents clk2 previous current)
   \<and> (\<forall>e \<in> set (detectCommonEvents clk1 previous current).
         e_id e = generateEventId (g_id current) (e_type e) None)
   \<and> generateEventId gameId eventType suffix =
       gameId @ ''_'' @ eventTypeStr eventType @
         (case suffix of None \<Rightarrow> [] | Some sfx \<Rightarrow> if sfx = [] then [] else ''_'' @ sfx)"
proof (intro conjI ballI)
  show "map e_id (detectCommonEvents clk1 previous current) =
     map e_id (detectCommonEvents clk2 previous current)"
    by (rule ids_clock_independent)
  show "map stripTimes (detectCommonEvents clk1 previous current) =
       map stripTimes (detectCommonEvents clk2 previous current)"
    by (rule strip_detectCommonEvents)
  show "e_id e = generateEventId (g_id current) (e_type e) None"
    if "e \<in> set (detectCommonEvents clk1 previous current)" for e
    using that by (rule id_of_detected)
  show "generateEventId gameId eventType suffix =
       gameId @ ''_'' @ eventTypeStr eventType @
         (case suffix of None \<Rightarrow> [] | Some sfx \<Rightarrow> if sfx = [] then [] else ''_'' @ sfx)"
    by (simp add: generateEventId_def split: option.splits)
qed

text \<open>
  The pair (SCHEDULED, 0-0), (LIVE, 0-0) read at two different times gives the one
  identifier \<open>nba_0022600800_GAME_START\<close> both times.
\<close>

theorem detection_idempotent_witness:
  "map e_id (detectCommonEvents (\<lambda>k. 1000) (Some (exampleGame SCHEDULED 0 0 None))
      (exampleGame LIVE 0 0 None)) = [''nba_0022600800_GAME_START'']
   \<and> map e_id (detectCommonEvents (\<lambda>k. 2000 + k) (Some (exampleGame SCHEDULED 0 0 None))
      (exampleGame LIVE 0 0 None)) = [''nba_0022600800_GAME_START'']"
proof -
  have one: "detectCommonEvents (\<lambda>k. 1000) (Some (exampleGame SCHEDULED 0 0 None))
      (exampleGame LIVE 0 0 None) =
      opt_list (detectGameStart (\<lambda>k. 1000) (Some (exampleGame SCHEDULED 0 0 None))
        (exampleGame LIVE 0 0 None))"
    by (simp add: detectCommonEvents_eq detectGameEnd_def detectBlowout_def detectCloseGame_def
          detectFinalPeriod_def detectStatusChange_def getPointDifferential_def exampleGame_def)
  have "map e_id (detectCommonEvents (\<lambda>k. 1000) (Some (exampleGame SCHEDULED 0 0 None))
      (exampleGame LIVE 0 0 None)) = [''nba_0022600800_GAME_START'']"
    unfolding one
    by (simp add: detectGameStart_def generateEventId_def exampleGame_def)
  then show ?thesis
    using detection_idempotent[of "\<lambda>k. 1000" "Some (exampleGame SCHEDULED 0 0 None)"
            "exampleGame LIVE 0 0 None" "\<lambda>k. 2000 + k"]
    by simp
qed

text \<open>
  C10. The list returned by \<open>detectCommonEvents\<close> holds at most one event of each
  \<open>EventType\<close>, its identifiers are pairwise distinct, and each identifier is the game
  identifier joined with the name of the event type, with no suffix.
\<close>

theorem detected_events_distinct:
  "distinct (map e_type (detectCommonEvents clk previous current))
   \<and> distinct (map e_id (detectCommonEvents clk previous current))
   \<and> (\<forall>e \<in> set (detectCommonEvents clk previous current).
         e_id e = g_id current @ ''_'' @ eventTypeStr (e_type e))"
  using distinct_types[of clk previous current] distinct_ids[of clk previous current]
    id_of_detected[of _ clk previous current]
  by (simp add: generateEventId_None)

text \<open>
  A first observation of a live game in the fourth period at 122-97 gives three events
  of three types with three identifiers.
\<close>

theorem detected_events_distinct_witness:
  "map e_type (detectCommonEvents (\<lambda>k. 0) None (exampleGame LIVE 122 97 (Some 4))) =
     [GAME_START, BLOWOUT, FINAL_PERIOD]
   \<and> distinct (map e_id (detectCommonEvents (\<lambda>k. 0) None (exampleGame LIVE 122 97 (Some 4))))"
proof -
  have "map e_type (detectCommonEvents (\<lambda>k. 0) None (exampleGame LIVE 122 97 (Some 4))) =
     [GAME_START, BLOWOUT, FINAL_PERIOD]"
    unfolding types_detectCommonEvents
    by (simp add: getPointDifferential_def exampleGame_def)
  then show ?thesis
    using detected_events_distinct[of "\<lambda>k. 0" None "exampleGame LIVE 122 97 (Some 4)"]
    by simp
qed

section \<open>Properties of the audience filter\<close>

subsection \<open>Time-of-day strings and their order\<close>

lemma showNat_small: "n < 10 \<Longrightarrow> showNat n = [digitChar n]"
  by (subst showNat.simps) simp

lemma showNat_large: "\<not> n < 10 \<Longrightarrow> showNat n = showNat (n div 10) @ [digitChar (n mod 10)]"
  by (subst showNat.simps) simp

lemma digit_cases: "(d::nat) < 10 \<Longrightarrow> d \<in> {0,1,2,3,4,5,6,7,8,9}"
  by auto

lemma digitChar_code: "d < 10 \<Longrightarrow> of_char (digitChar d) = (48 + d :: nat)"
  by (drule digit_cases) (auto simp: digitChar_def)

lemma digitChar_less: "a < 10 \<Longrightarrow> b < 10 \<Longrightarrow> digitChar a < digitChar b \<longleftrightarrow> a < b"
  by (simp add: less_char_def digitChar_code)

lemma digitChar_eq: "a < 10 \<Longrightarrow> b < 10 \<Longrightarrow> digitChar a = digitChar b \<longleftrightarrow> a = b"
proof -
  assume a: "a < 10" and b: "b < 10"
  show ?thesis
  proof
    assume "digitChar a = digitChar b"
    then have "(of_char (digitChar a) :: nat) = of_char (digitChar b)"
      by (rule arg_cong)
    then have "48 + a = 48 + b"
      unfolding digitChar_code[OF a] digitChar_code[OF b] .
    then show "a = b" by (rule add_left_imp_eq)
  next
    assume "a = b"
    then show "digitChar a = digitChar b" by (rule arg_cong)
  qed
qed

lemma digitChar_0: "digitChar 0 = CHR ''0''"
  by (simp add: digitChar_def)

lemma two_digits: "n < 100 \<Longrightarrow> padStart2 (showNat n) = [digitChar (n div 10), digitChar (n mod 10)]"
proof -
  assume n: "n < 100"
  show ?thesis
  proof (cases "n < 10")
    case True
    then show ?thesis by (simp add: padStart2_def showNat_small digitChar_0)
  next
    case False
    then have "n div 10 < 10" using n by simp
    then show ?thesis using False by (simp add: padStart2_def showNat_small showNat_large)
  qed
qed

lemma currentTimeStr_digits:
  "h < 100 \<Longrightarrow> m < 100 \<Longrightarrow>
   currentTimeStr (h, m) = [digitChar (h div 10), digitChar (h mod 10), CHR '':'',
                            digitChar (m div 10), digitChar (m mod 10)]"
  by (simp add: currentTimeStr_def two_digits)

lemma lex2:
  fixes qa ra qb rb :: nat
  assumes "ra < 10" "rb < 10"
  shows "(qa < qb \<or> qa = qb \<and> ra < rb) \<longleftrightarrow> 10 * qa + ra < 10 * qb + rb"
  using assms by auto

lemma two_digit_less:
  fixes a b :: nat
  shows "(a div 10 < b div 10 \<or> a div 10 = b div 10 \<and> a mod 10 < b mod 10) \<longleftrightarrow> a < b"
  using lex2[of "a mod 10" "b mod 10" "a div 10" "b div 10"] by simp

lemma two_digit_eq:
  fixes a b :: nat
  shows "(a div 10 = b div 10 \<and> a mod 10 = b mod 10) \<longleftrightarrow> a = b"
  by (metis div_mult_mod_eq)

lemma currentTimeStr_less:
  assumes "h1 < 24" "m1 < 60" "h2 < 24" "m2 < 60"
  shows "currentTimeStr (h1, m1) < currentTimeStr (h2, m2) \<longleftrightarrow> 60 * h1 + m1 < 60 * h2 + m2"
proof -
  have d: "h1 div 10 < 10" "h1 mod 10 < 10" "m1 div 10 < 10" "m1 mod 10 < 10"
    "h2 div 10 < 10" "h2 mod 10 < 10" "m2 div 10 < 10" "m2 mod 10 < 10"
    using assms by simp_all
  have r: "h1 < 100" "m1 < 100" "h2 < 100" "m2 < 100"
    using assms by simp_all
  have "currentTimeStr (h1, m1) < currentTimeStr (h2, m2) \<longleftrightarrow>
    (h1 div 10 < h2 div 10 \<or> h1 div 10 = h2 div 10 \<and>
      (h1 mod 10 < h2 mod 10 \<or> h1 mod 10 = h2 mod 10 \<and>
        (m1 div 10 < m2 div 10 \<or> m1 div 10 = m2 div 10 \<and> m1 mod 10 < m2 mod 10)))"
    unfolding currentTimeStr_digits[OF r(1,2)] currentTimeStr_digits[OF r(3,4)]
    using d by (simp add: digitChar_less digitChar_eq)
  also have "\<dots> \<longleftrightarrow> (h1 < h2 \<or> h1 = h2 \<and> m1 < m2)"
    using two_digit_less[of h1 h2] two_digit_less[of m1 m2] two_digit_eq[of h1 h2] by blast
  also have "\<dots> \<longleftrightarrow> 60 * h1 + m1 < 60 * h2 + m2"
    using assms(2,4) by auto
  finally show ?thesis .
qed

lemma currentTimeStr_inj:
  assumes "h1 < 24" "m1 < 60" "h2 < 24" "m2 < 60"
  shows "currentTimeStr (h1, m1) = currentTimeStr (h2, m2) \<longleftrightarrow> h1 = h2 \<and> m1 = m2"
proof -
  have d: "h1 div 10 < 10" "h1 mod 10 < 10" "m1 div 10 < 10" "m1 mod 10 < 10"
    "h2 div 10 < 10" "h2 mod 10 < 10" "m2 div 10 < 10" "m2 mod 10 < 10"
    using assms by simp_all
  have r: "h1 < 100" "m1 < 100" "h2 < 100" "m2 < 100"
    using assms by simp_all
  have "currentTimeStr (h1, m1) = currentTimeStr (h2, m2) \<longleftrightarrow>
    (h1 div 10 = h2 div 10 \<and> h1 mod 10 = h2 mod 10) \<and> (m1 div 10 = m2 div 10 \<and> m1 mod 10 = m2 mod 10)"
    unfolding currentTimeStr_digits[OF r(1,2)] currentTimeStr_digits[OF r(3,4)]
    using d by (simp add: digitChar_eq)
  then show ?thesis
    unfolding two_digit_eq .
qed

lemma currentTimeStr_le:
  assumes "h1 < 24" "m1 < 60" "h2 < 24" "m2 < 60"
  shows "currentTimeStr (h1, m1) \<le> currentTimeStr (h2, m2) \<longleftrightarrow> 60 * h1 + m1 \<le> 60 * h2 + m2"
proof -
  have "currentTimeStr (h1, m1) \<le> currentTimeStr (h2, m2) \<longleftrightarrow>
     currentTimeStr (h1, m1) < currentTimeStr (h2, m2) \<or> currentTimeStr (h1, m1) = currentTimeStr (h2, m2)"
    by (rule le_less)
  also have "\<dots> \<longleftrightarrow> 60 * h1 + m1 < 60 * h2 + m2 \<or> (h1 = h2 \<and> m1 = m2)"
    unfolding currentTimeStr_less[OF assms] currentTimeStr_inj[OF assms] ..
  also have "\<dots> \<longleftrightarrow> 60 * h1 + m1 \<le> 60 * h2 + m2"
  proof -
    have "h1 = h2 \<and> m1 = m2" if eq: "60 * h1 + m1 = 60 * h2 + m2"
    proof -
      have "(60 * h1 + m1) mod 60 = m1" "(60 * h2 + m2) mod 60 = m2"
        "(60 * h1 + m1) div 60 = h1" "(60 * h2 + m2) div 60 = h2"
        using assms(2,4) by simp_all
      then show ?thesis using eq by metis
    qed
    then show ?thesis by auto
  qed
  finally show ?thesis .
qed

lemma currentTime_examples:
  "currentTimeStr (23, 30) = ''23:30''" "currentTimeStr (7, 0) = ''07:00''"
  "currentTimeStr (12, 0) = ''12:00''" "currentTimeStr (8, 0) = ''08:00''"
  "currentTimeStr (22, 0) = ''22:00''"
  by (simp_all add: currentTimeStr_digits digitChar_def)

subsection \<open>The quiet-hours and team blocks\<close>

lemma shouldNotifyUser_quiet:
  assumes "up_quietHours prefs = Some qh" "qh_enabled qh"
  shows "shouldNotifyUser now prefs sport et teams \<longleftrightarrow>
           shouldNotifyUser now (prefs\<lparr> up_quietHours := None \<rparr>) sport et teams \<and>
           \<not> (if qh_start qh > qh_end qh
               then currentTimeStr now \<ge> qh_start qh \<or> currentTimeStr now \<le> qh_end qh
               else qh_start qh \<le> currentTimeStr now \<and> currentTimeStr now \<le> qh_end qh)"
proof -
  have a: "quietHoursReject now prefs =
      (if qh_start qh > qh_end qh
       then currentTimeStr now \<ge> qh_start qh \<or> currentTimeStr now \<le> qh_end qh
       else qh_start qh \<le> currentTimeStr now \<and> currentTimeStr now \<le> qh_end qh)"
    using assms by (simp add: quietHoursReject_def Let_def)
  have b: "quietHoursReject now (prefs\<lparr> up_quietHours := None \<rparr>) = False"
    by (simp add: quietHoursReject_def)
  show ?thesis
    unfolding shouldNotifyUser_def a b
    by (simp split: option.splits)
qed

lemma shouldNotifyUser_rivalry_iff:
  assumes "up_sports prefs sport = Some sp"
    and "sp_favoriteTeam sp = Some fav" "fav \<noteq> []"
    and "sp_rivalTeams sp = Some rivals"
  shows "shouldNotifyUser now prefs sport et (Some [home, away]) \<longleftrightarrow>
           ((home = fav \<and> away \<in> set rivals) \<or> (away = fav \<and> home \<in> set rivals)) \<and>
           shouldNotifyUser now prefs sport et None"
proof -
  have a: "teamCheckRejects sp (Some [home, away]) =
      (\<not> ((home = fav \<and> away \<in> set rivals) \<or> (away = fav \<and> home \<in> set rivals)))"
    using assms by (simp add: teamCheckRejects_def Let_def truthyStr_def nth_opt_def)
  have b: "teamCheckRejects sp None = False"
    by (simp add: teamCheckRejects_def)
  show ?thesis
    unfolding shouldNotifyUser_def using assms(1) a b
    by auto
qed

section \<open>Claims about the audience filter\<close>

text \<open>
  C4, as the code has it. With quiet hours enabled, \<open>shouldNotifyUser\<close> answers what it
  answers without quiet hours, except that it rejects when the current time \<open>t\<close> is in
  the closed window: for \<open>start > end\<close> (overnight) when \<open>t \<ge> start\<close> or \<open>t \<le> end\<close>,
  otherwise when \<open>start \<le> t \<le> end\<close>. The comparisons are those of the \<open>HH:mm\<close>
  strings; for hours below 24 and minutes below 60 they are the comparisons of the
  minutes since midnight. A time equal to \<open>end\<close> is suppressed.
\<close>

theorem quiet_hours_closed_window:
  "(up_quietHours prefs = Some qh \<and> qh_enabled qh \<longrightarrow>
      (shouldNotifyUser now prefs sport et teamIds \<longleftrightarrow>
         shouldNotifyUser now (prefs\<lparr> up_quietHours := None \<rparr>) sport et teamIds \<and>
         \<not> (if qh_start qh > qh_end qh
             then currentTimeStr now \<ge> qh_start qh \<or> currentTimeStr now \<le> qh_end qh
             else qh_start qh \<le> currentTimeStr now \<and> currentTimeStr now \<le> qh_end qh)))
   \<and> (up_quietHours prefs = Some qh \<and> qh_enabled qh \<and>
       qh_start qh = currentTimeStr (sh, sm) \<and> qh_end qh = currentTimeStr (eh, em) \<and>
       sh < 24 \<and> sm < 60 \<and> eh < 24 \<and> em < 60 \<and> h < 24 \<and> m < 60 \<longrightarrow>
      (shouldNotifyUser (h, m) prefs sport et teamIds \<longleftrightarrow>
         shouldNotifyUser (h, m) (prefs\<lparr> up_quietHours := None \<rparr>) sport et teamIds \<and>
         \<not> (if 60 * sh + sm > 60 * eh + em
             then 60 * h + m \<ge> 60 * sh + sm \<or> 60 * h + m \<le> 60 * eh + em
             else 60 * sh + sm \<le> 60 * h + m \<and> 60 * h + m \<le> 60 * eh + em)))"
proof (intro conjI impI)
  assume "up_quietHours prefs = Some qh \<and> qh_enabled qh"
  then show "shouldNotifyUser now prefs sport et teamIds \<longleftrightarrow>
         shouldNotifyUser now (prefs\<lparr> up_quietHours := None \<rparr>) sport et teamIds \<and>
         \<not> (if qh_start qh > qh_end qh
             then currentTimeStr now \<ge> qh_start qh \<or> currentTimeStr now \<le> qh_end qh
             else qh_start qh \<le> currentTimeStr now \<and> currentTimeStr now \<le> qh_end qh)"
    using shouldNotifyUser_quiet[of prefs qh now sport et teamIds] by blast
next
  assume a: "up_quietHours prefs = Some qh \<and> qh_enabled qh \<and>
       qh_start qh = currentTimeStr (sh, sm) \<and> qh_end qh = currentTimeStr (eh, em) \<and>
       sh < 24 \<and> sm < 60 \<and> eh < 24 \<and> em < 60 \<and> h < 24 \<and> m < 60"
  then have r: "sh < 24" "sm < 60" "eh < 24" "em < 60" "h < 24" "m < 60"
    by simp_all
  have s: "qh_start qh = currentTimeStr (sh, sm)" and e: "qh_end qh = currentTimeStr (eh, em)"
    using a by simp_all
  have q: "up_quietHours prefs = Some qh" "qh_enabled qh"
    using a by simp_all
  show "shouldNotifyUser (h, m) prefs sport et teamIds \<longleftrightarrow>
         shouldNotifyUser (h, m) (prefs\<lparr> up_quietHours := None \<rparr>) sport et teamIds \<and>
         \<not> (if 60 * sh + sm > 60 * eh + em
             then 60 * h + m \<ge> 60 * sh + sm \<or> 60 * h + m \<le> 60 * eh + em
             else 60 * sh + sm \<le> 60 * h + m \<and> 60 * h + m \<le> 60 * eh + em)"
    unfolding shouldNotifyUser_quiet[OF q, of "(h, m)" sport et teamIds] s e
      currentTimeStr_less[OF r(3,4,1,2)]
      currentTimeStr_le[OF r(1,2,5,6)] currentTimeStr_le[OF r(5,6,3,4)]
    by (rule refl)
qed

text \<open>
  The window 22:00 to 08:00: 23:30, 07:00 and 08:00 are suppressed, 12:00 is not.
\<close>

theorem quiet_hours_closed_window_witness:
  "shouldNotifyUser (23, 30) (examplePrefs plainPrefs (Some overnightQuiet)) NBA GAME_START
     (Some [''LAL'', ''BOS'']) = False
   \<and> shouldNotifyUser (7, 0) (examplePrefs plainPrefs (Some overnightQuiet)) NBA GAME_START
     (Some [''LAL'', ''BOS'']) = False
   \<and> shouldNotifyUser (12, 0) (examplePrefs plainPrefs (Some overnightQuiet)) NBA GAME_START
     (Some [''LAL'', ''BOS'']) = True
   \<and> shouldNotifyUser (8, 0) (examplePrefs plainPrefs (Some overnightQuiet)) NBA GAME_START
     (Some [''LAL'', ''BOS'']) = False"
  using
    quiet_hours_closed_window[of "examplePrefs plainPrefs (Some overnightQuiet)" overnightQuiet
      "(23, 30)" NBA GAME_START "Some [''LAL'', ''BOS'']" 22 0 8 0 23 30]
    quiet_hours_closed_window[of "examplePrefs plainPrefs (Some overnightQuiet)" overnightQuiet
      "(7, 0)" NBA GAME_START "Some [''LAL'', ''BOS'']" 22 0 8 0 7 0]
    quiet_hours_closed_window[of "examplePrefs plainPrefs (Some overnightQuiet)" overnightQuiet
      "(12, 0)" NBA GAME_START "Some [''LAL'', ''BOS'']" 22 0 8 0 12 0]
    quiet_hours_closed_window[of "examplePrefs plainPrefs (Some overnightQuiet)" overnightQuiet
      "(8, 0)" NBA GAME_START "Some [''LAL'', ''BOS'']" 22 0 8 0 8 0]
  by (simp add: currentTime_examples examplePrefs_def overnightQuiet_def plainPrefs_def
        shouldNotifyUser_def quietHoursReject_def teamCheckRejects_def truthyStr_def)

text \<open>
  C4, as stated, fails at \<open>t = end\<close>. With the window 22:00 to 08:00 and the time
  08:00, \<open>shouldNotifyUser\<close> rejects a notification that the same preferences without
  quiet hours accept, although 08:00 is neither \<open>\<ge> start\<close> nor \<open>< end\<close>.
\<close>

theorem quiet_hours_end_counterexample:
  "shouldNotifyUser (8, 0) (examplePrefs plainPrefs (Some overnightQuiet)) NBA GAME_START
     (Some [''LAL'', ''BOS'']) = False
   \<and> shouldNotifyUser (8, 0) (examplePrefs plainPrefs None) NBA GAME_START
     (Some [''LAL'', ''BOS'']) = True
   \<and> qh_enabled overnightQuiet
   \<and> qh_start overnightQuiet > qh_end overnightQuiet
   \<and> \<not> (currentTimeStr (8, 0) \<ge> qh_start overnightQuiet \<or>
         currentTimeStr (8, 0) < qh_end overnightQuiet)"
  by (simp add: currentTime_examples examplePrefs_def overnightQuiet_def plainPrefs_def
        shouldNotifyUser_def quietHoursReject_def teamCheckRejects_def truthyStr_def)

text \<open>
  C5. Rivalry mode is exclusive. For a user whose configuration of the sport has a
  favorite team (a non-empty string) and a rival list, \<open>shouldNotifyUser\<close> on a game of
  \<open>home\<close> against \<open>away\<close> is true exactly when one of the two is the favorite and the
  other a listed rival, in either orientation, and the checks other than the team check
  pass; the legacy team list plays no part.
\<close>

theorem rivalry_mode_exclusive:
  "up_sports prefs sport = Some sp \<and> sp_favoriteTeam sp = Some fav \<and> fav \<noteq> [] \<and>
   sp_rivalTeams sp = Some rivals \<longrightarrow>
     (shouldNotifyUser now prefs sport et (Some [home, away]) \<longrightarrow>
        (home = fav \<and> away \<in> set rivals) \<or> (away = fav \<and> home \<in> set rivals))
     \<and> (shouldNotifyUser now prefs sport et (Some [home, away]) \<longleftrightarrow>
          ((home = fav \<and> away \<in> set rivals) \<or> (away = fav \<and> home \<in> set rivals)) \<and>
          shouldNotifyUser now prefs sport et None)"
  using shouldNotifyUser_rivalry_iff[of prefs sport sp fav rivals now et home away]
  by blast

text \<open>
  Favorite LAL with rival BOS: LAL against BOS passes in both orientations, LAL against
  MIA fails, also when LAL and MIA are on the legacy team list.
\<close>

theorem rivalry_mode_exclusive_witness:
  "shouldNotifyUser (12, 0) (examplePrefs (rivalryPrefs None) None) NBA GAME_START
     (Some [''LAL'', ''BOS'']) = True
   \<and> shouldNotifyUser (12, 0) (examplePrefs (rivalryPrefs None) None) NBA GAME_START
     (Some [''BOS'', ''LAL'']) = True
   \<and> shouldNotifyUser (12, 0) (examplePrefs (rivalryPrefs None) None) NBA GAME_START
     (Some [''LAL'', ''MIA'']) = False
   \<and> shouldNotifyUser (12, 0) (examplePrefs (rivalryPrefs (Some [''LAL'', ''MIA''])) None) NBA
     GAME_START (Some [''LAL'', ''MIA'']) = False"
  using
    rivalry_mode_exclusive[of "examplePrefs (rivalryPrefs None) None" NBA "rivalryPrefs None"
      "''LAL''" "[''BOS'']" "(12, 0)" GAME_START "''LAL''" "''BOS''"]
    rivalry_mode_exclusive[of "examplePrefs (rivalryPrefs None) None" NBA "rivalryPrefs None"
      "''LAL''" "[''BOS'']" "(12, 0)" GAME_START "''BOS''" "''LAL''"]
    rivalry_mode_exclusive[of "examplePrefs (rivalryPrefs None) None" NBA "rivalryPrefs None"
      "''LAL''" "[''BOS'']" "(12, 0)" GAME_START "''LAL''" "''MIA''"]
    rivalry_mode_exclusive[of "examplePrefs (rivalryPrefs (Some [''LAL'', ''MIA''])) None" NBA
      "rivalryPrefs (Some [''LAL'', ''MIA''])"
      "''LAL''" "[''BOS'']" "(12, 0)" GAME_START "''LAL''" "''MIA''"]
  by (simp add: examplePrefs_def rivalryPrefs_def shouldNotifyUser_def quietHoursReject_def
        teamCheckRejects_def truthyStr_def)

section \<open>Properties of the push gateway client\<close>

subsection \<open>Splitting into batches\<close>

declare splitBatches.simps [simp del]

lemma splitBatches_step:
  "i < length ts \<Longrightarrow>
   splitBatches ts i acc = splitBatches ts (i + 500) (acc @ [take 500 (drop i ts)])"
  by (subst splitBatches.simps) (simp add: batchSize_def)

lemma splitBatches_stop: "\<not> i < length ts \<Longrightarrow> splitBatches ts i acc = acc"
  by (subst splitBatches.simps) simp

lemma batch_count_step:
  fixes d :: nat
  assumes "0 < d"
  shows "(d + 499) div 500 = Suc ((d - 500 + 499) div 500)"
proof (cases "500 \<le> d")
  case True
  then have "d + 499 = (d - 500 + 499) + 500" by simp
  then have "(d + 499) div 500 = ((d - 500 + 499) + 500) div 500" by simp
  also have "\<dots> = Suc ((d - 500 + 499) div 500)" by simp
  finally show ?thesis .
next
  case False
  then have "d - 500 = 0" by simp
  moreover have "(d + 499) div 500 = 1"
    using assms False by (simp add: div_eq_dividend_iff Euclidean_Rings.div_nat_eqI)
  ultimately show ?thesis by simp
qed

lemma splitBatches_eq:
  "splitBatches ts i acc =
     acc @ map (\<lambda>k. take 500 (drop (i + 500 * k) ts)) [0..<(length ts - i + 499) div 500]"
proof (induction ts i acc rule: splitBatches.induct)
  case (1 ts i acc)
  show ?case
  proof (cases "i < length ts")
    case True
    have n: "(length ts - i + 499) div 500 = Suc ((length ts - (i + 500) + 499) div 500)"
      using batch_count_step[of "length ts - i"] True by simp
    have "splitBatches ts i acc = splitBatches ts (i + 500) (acc @ [take 500 (drop i ts)])"
      using True by (rule splitBatches_step)
    also have "\<dots> = (acc @ [take 500 (drop i ts)]) @
        map (\<lambda>k. take 500 (drop (i + 500 + 500 * k) ts)) [0..<(length ts - (i + 500) + 499) div 500]"
      using "1.IH"[OF True] by (simp add: batchSize_def)
    also have "\<dots> = acc @ map (\<lambda>k. take 500 (drop (i + 500 * k) ts)) [0..<(length ts - i + 499) div 500]"
      unfolding n map_upt_Suc by (simp add: add.assoc)
    finally show ?thesis .
  next
    case False
    then have "(length ts - i + 499) div 500 = 0" by simp
    then show ?thesis using False by (simp add: splitBatches_stop)
  qed
qed

lemma concat_chunks:
  "concat (map (\<lambda>k. take 500 (drop (i + 500 * k) ts)) [0..<n]) = take (500 * n) (drop i ts)"
proof (induction n)
  case 0
  then show ?case by simp
next
  case (Suc n)
  let ?f = "\<lambda>k. take 500 (drop (i + 500 * k) ts)"
  have "concat (map ?f [0..<Suc n]) = concat (map ?f [0..<n]) @ ?f n"
    by simp
  also have "\<dots> = take (500 * n) (drop i ts) @ take 500 (drop (500 * n) (drop i ts))"
    unfolding Suc.IH by (simp add: add.commute)
  also have "\<dots> = take (500 * n + 500) (drop i ts)"
    by (rule take_add[symmetric])
  finally show ?case by (simp add: add.commute)
qed

lemma batches_cover: fixes d :: nat shows "d \<le> 500 * ((d + 499) div 500)"
proof -
  have "d + 499 = 500 * ((d + 499) div 500) + (d + 499) mod 500" by simp
  moreover have "(d + 499) mod 500 \<le> 499" by simp
  ultimately show ?thesis by linarith
qed

lemma concat_splitBatches: "concat (splitBatches ts 0 []) = ts"
  using batches_cover[of "length ts"] concat_chunks[of 0 ts "(length ts + 499) div 500"]
  by (simp add: splitBatches_eq)

lemma length_splitBatches: "length (splitBatches ts 0 []) = (length ts + 499) div 500"
  by (simp add: splitBatches_eq)

lemma nth_splitBatches:
  "k < (length ts + 499) div 500 \<Longrightarrow> splitBatches ts 0 [] ! k = take 500 (drop (500 * k) ts)"
  by (simp add: splitBatches_eq)

lemma size_splitBatches:
  assumes "b \<in> set (splitBatches ts 0 [])"
  shows "0 < length b \<and> length b \<le> 500"
proof -
  obtain k where k: "k < (length ts + 499) div 500" and b: "b = take 500 (drop (500 * k) ts)"
    using assms by (auto simp: splitBatches_eq)
  have "500 * k < length ts"
  proof (rule ccontr)
    assume "\<not> 500 * k < length ts"
    then have "length ts + 499 < 500 * k + 500" by simp
    then have "(length ts + 499) div 500 < k + 1"
      by (simp add: div_less_iff_less_mult)
    then show False using k by simp
  qed
  then show ?thesis using b by simp
qed

lemma two_batches: "length ts = 600 \<Longrightarrow> length (splitBatches ts 0 []) = 2"
  by (simp add: length_splitBatches)

subsection \<open>Sending the batches\<close>

lemma collectInvalid_eq:
  "idx + length resps \<le> length batch \<Longrightarrow>
   collectInvalid batch resps idx invalid =
     invalid @ map Some (map fst (filter (\<lambda>(token, resp). \<not> sr_success resp \<and> isInvalidTokenCode (sr_errorCode resp))
                (zip (drop idx batch) resps)))"
proof (induction resps arbitrary: idx invalid)
  case Nil
  then show ?case by simp
next
  case (Cons resp resps)
  have lt: "idx < length batch" using Cons.prems by simp
  have d: "drop idx batch = batch ! idx # drop (Suc idx) batch"
    using lt by (rule Cons_nth_drop_Suc[symmetric])
  have n: "nth_opt batch idx = Some (batch ! idx)"
    using lt by (simp add: nth_opt_def)
  have le: "Suc idx + length resps \<le> length batch" using Cons.prems by simp
  show ?case
    unfolding collectInvalid.simps Cons.IH[OF le] d n
    by simp
qed

lemma collect_wellFormed:
  assumes "wellFormedResponse batch response"
  shows "(if br_failureCount response > 0
          then collectInvalid batch (br_responses response) 0 invalid else invalid) =
         invalid @ map Some (reportedInvalid batch response)"
proof (cases "br_failureCount response > 0")
  case True
  have "0 + length (br_responses response) \<le> length batch"
    using assms by (simp add: wellFormedResponse_def)
  from collectInvalid_eq[OF this, of invalid] True show ?thesis
    by (simp add: reportedInvalid_def)
next
  case False
  then have "filter (\<lambda>resp. \<not> sr_success resp) (br_responses response) = []"
    using assms by (simp add: wellFormedResponse_def)
  then have all: "\<forall>resp \<in> set (br_responses response). sr_success resp"
    by (simp add: filter_empty_conv)
  have "filter (\<lambda>(token, resp). \<not> sr_success resp \<and> isInvalidTokenCode (sr_errorCode resp))
          (zip batch (br_responses response)) = []"
    unfolding filter_empty_conv using all by (auto dest: set_zip_rightD)
  then show ?thesis using False by (simp add: reportedInvalid_def)
qed

lemma sendBatches_ok:
  assumes "\<forall>j < length bs. \<exists>resp. gw (k + j) (buildMessage (bs ! j) payload options) = Inr resp \<and>
              wellFormedResponse (bs ! j) resp"
  shows "sendBatches gw payload options bs k acc sent =
     (Inr \<lparr> successCount = successCount acc +
               sum_list (map (\<lambda>j. br_successCount (responseTo gw payload options (k + j) (bs ! j))) [0..<length bs]),
             failureCount = failureCount acc +
               sum_list (map (\<lambda>j. br_failureCount (responseTo gw payload options (k + j) (bs ! j))) [0..<length bs]),
             invalidTokens = invalidTokens acc @
               map Some (concat (map (\<lambda>j. reportedInvalid (bs ! j) (responseTo gw payload options (k + j) (bs ! j)))
                  [0..<length bs])) \<rparr>,
      sent @ map (\<lambda>b. buildMessage b payload options) bs)"
  using assms
proof (induction bs arbitrary: k acc sent)
  case Nil
  then show ?case by simp
next
  case (Cons b rest)
  obtain resp where g: "gw k (buildMessage b payload options) = Inr resp"
    and wf: "wellFormedResponse b resp"
    using Cons.prems by force
  have r: "responseTo gw payload options k b = resp"
    by (simp add: responseTo_def g)
  have shifted: "\<forall>j < length rest. \<exists>resp. gw (Suc k + j) (buildMessage (rest ! j) payload options) = Inr resp \<and>
              wellFormedResponse (rest ! j) resp"
  proof (intro allI impI)
    fix j assume "j < length rest"
    then have "Suc j < length (b # rest)" by simp
    from Cons.prems[rule_format, OF this] show "\<exists>resp. gw (Suc k + j) (buildMessage (rest ! j) payload options) = Inr resp \<and>
              wellFormedResponse (rest ! j) resp" by simp
  qed
  show ?case
    unfolding sendBatches.simps Let_def g sum.case collect_wellFormed[OF wf]
      Cons.IH[OF shifted]
    by (simp add: map_upt_Suc r del: upt_Suc)
qed

lemma sendBatchNotifications_ok:
  assumes "\<forall>k < length (splitBatches fcmTokens 0 []).
            \<exists>resp. gw k (buildMessage (splitBatches fcmTokens 0 [] ! k) payload options) = Inr resp \<and>
                   wellFormedResponse (splitBatches fcmTokens 0 [] ! k) resp"
  shows "sendBatchNotifications gw fcmTokens payload options =
     (Inr \<lparr> successCount =
               sum_list (map (\<lambda>k. br_successCount
                   (responseTo gw payload options k (splitBatches fcmTokens 0 [] ! k)))
                 [0..<length (splitBatches fcmTokens 0 [])]),
             failureCount =
               sum_list (map (\<lambda>k. br_failureCount
                   (responseTo gw payload options k (splitBatches fcmTokens 0 [] ! k)))
                 [0..<length (splitBatches fcmTokens 0 [])]),
             invalidTokens =
               map Some (concat (map (\<lambda>k. reportedInvalid (splitBatches fcmTokens 0 [] ! k)
                   (responseTo gw payload options k (splitBatches fcmTokens 0 [] ! k)))
                 [0..<length (splitBatches fcmTokens 0 [])])) \<rparr>,
      map (\<lambda>b. buildMessage b payload options) (splitBatches fcmTokens 0 []))"
proof (cases "fcmTokens = []")
  case True
  then show ?thesis
    by (simp add: sendBatchNotifications_def splitBatches_stop)
next
  case False
  have a: "\<forall>j < length (splitBatches fcmTokens 0 []).
            \<exists>resp. gw (0 + j) (buildMessage (splitBatches fcmTokens 0 [] ! j) payload options) = Inr resp \<and>
                   wellFormedResponse (splitBatches fcmTokens 0 [] ! j) resp"
    using assms by simp
  show ?thesis
    using False sendBatches_ok[OF a, of "\<lparr> successCount = 0, failureCount = 0, invalidTokens = [] \<rparr>" "[]"]
    by (simp add: sendBatchNotifications_def)
qed

lemma reportedInvalid_rejecting:
  "reportedInvalid b (responseTo rejectingGateway payload options k b) = b"
proof -
  have "map fst (filter (\<lambda>(token, resp). \<not> sr_success resp \<and> isInvalidTokenCode (sr_errorCode resp))
          (zip xs (map (\<lambda>token. \<lparr> sr_success = False,
                 sr_errorCode = Some ''messaging/registration-token-not-registered'' \<rparr>) ys))) = xs"
    if "length xs = length ys" for xs ys :: "string list"
    using that by (induction xs ys rule: list_induct2) (simp_all add: isInvalidTokenCode_def)
  then show ?thesis
    by (simp add: reportedInvalid_def responseTo_def rejectingGateway_def buildMessage_def)
qed

lemma wellFormed_rejecting:
  "\<exists>resp. rejectingGateway k (buildMessage b payload options) = Inr resp \<and> wellFormedResponse b resp"
  by (simp add: rejectingGateway_def buildMessage_def wellFormedResponse_def)

section \<open>Claims about the push gateway client\<close>

text \<open>
  C8. \<open>sendBatchNotifications\<close> splits the token list into \<open>ceil(n / 500)\<close> consecutive
  batches of at most 500 tokens (the \<open>k\<close>-th batch is the tokens from position \<open>500 k\<close>
  on) whose concatenation is the list; 600 tokens give two batches. When the gateway
  answers every batch with a well-formed response, the call returns, it has submitted
  exactly these batches in order, and \<open>invalidTokens\<close> is the union over the batches of
  the tokens each batch reported as permanently invalid. An empty token list returns
  the zero outcome with no submission.
\<close>

theorem send_batch_notifications:
  "concat (splitBatches fcmTokens 0 []) = fcmTokens
   \<and> length (splitBatches fcmTokens 0 []) = (length fcmTokens + 499) div 500
   \<and> (\<forall>b \<in> set (splitBatches fcmTokens 0 []). 0 < length b \<and> length b \<le> 500)
   \<and> (\<forall>k < length (splitBatches fcmTokens 0 []).
        splitBatches fcmTokens 0 [] ! k = take 500 (drop (500 * k) fcmTokens))
   \<and> (length fcmTokens = 600 \<longrightarrow> length (splitBatches fcmTokens 0 []) = 2)
   \<and> sendBatchNotifications gw [] payload options =
        (Inr \<lparr> successCount = 0, failureCount = 0, invalidTokens = [] \<rparr>, [])
   \<and> ((\<forall>k < length (splitBatches fcmTokens 0 []).
         \<exists>resp. gw k (buildMessage (splitBatches fcmTokens 0 [] ! k) payload options) = Inr resp \<and>
                wellFormedResponse (splitBatches fcmTokens 0 [] ! k) resp) \<longrightarrow>
       (\<exists>result.
          sendBatchNotifications gw fcmTokens payload options =
            (Inr result, map (\<lambda>b. buildMessage b payload options) (splitBatches fcmTokens 0 [])) \<and>
          set (invalidTokens result) =
            Some ` (\<Union>k < length (splitBatches fcmTokens 0 []).
                      set (reportedInvalid (splitBatches fcmTokens 0 [] ! k)
                             (responseTo gw payload options k (splitBatches fcmTokens 0 [] ! k))))))"
proof (intro conjI ballI allI impI)
  show "concat (splitBatches fcmTokens 0 []) = fcmTokens"
    by (rule concat_splitBatches)
  show "length (splitBatches fcmTokens 0 []) = (length fcmTokens + 499) div 500"
    by (rule length_splitBatches)
  show "0 < length b" "length b \<le> 500" if "b \<in> set (splitBatches fcmTokens 0 [])" for b
    using size_splitBatches[OF that] by simp_all
  show "splitBatches fcmTokens 0 [] ! k = take 500 (drop (500 * k) fcmTokens)"
    if "k < length (splitBatches fcmTokens 0 [])" for k
    using that nth_splitBatches[of k fcmTokens] by (simp add: length_splitBatches)
  show "length (splitBatches fcmTokens 0 []) = 2" if "length fcmTokens = 600"
    using that by (rule two_batches)
  show "sendBatchNotifications gw [] payload options =
        (Inr \<lparr> successCount = 0, failureCount = 0, invalidTokens = [] \<rparr>, [])"
    by (simp add: sendBatchNotifications_def)
  show "\<exists>result.
          sendBatchNotifications gw fcmTokens payload options =
            (Inr result, map (\<lambda>b. buildMessage b payload options) (splitBatches fcmTokens 0 [])) \<and>
          set (invalidTokens result) =
            Some ` (\<Union>k < length (splitBatches fcmTokens 0 []).
                      set (reportedInvalid (splitBatches fcmTokens 0 [] ! k)
                             (responseTo gw payload options k (splitBatches fcmTokens 0 [] ! k))))"
    if "\<forall>k < length (splitBatches fcmTokens 0 []).
         \<exists>resp. gw k (buildMessage (splitBatches fcmTokens 0 [] ! k) payload options) = Inr resp \<and>
                wellFormedResponse (splitBatches fcmTokens 0 [] ! k) resp"
    unfolding sendBatchNotifications_ok[of fcmTokens gw payload options, OF that]
    by (simp add: atLeast0LessThan)
qed

text \<open>
  600 tokens sent through a gateway that rejects every token as unregistered: two
  submissions, of 500 and of 100 tokens, and all 600 tokens in \<open>invalidTokens\<close>.
\<close>

theorem send_batch_notifications_witness:
  "map (\<lambda>message. length (mm_tokens message))
     (snd (sendBatchNotifications rejectingGateway (replicate 600 ''token'') examplePayload None))
     = [500, 100]
   \<and> (\<exists>result.
        fst (sendBatchNotifications rejectingGateway (replicate 600 ''token'') examplePayload None)
          = Inr result \<and>
        set (invalidTokens result) = {Some ''token''})"
proof -
  let ?ts = "replicate 600 ''token''"
  have bs: "splitBatches ?ts 0 [] = [replicate 500 ''token'', replicate 100 ''token'']"
    by (simp add: splitBatches_eq upt_rec)
  have hyp: "\<forall>k < length (splitBatches ?ts 0 []).
         \<exists>resp. rejectingGateway k (buildMessage (splitBatches ?ts 0 [] ! k) examplePayload None) = Inr resp \<and>
                wellFormedResponse (splitBatches ?ts 0 [] ! k) resp"
    using wellFormed_rejecting by blast
  obtain result where
    r: "sendBatchNotifications rejectingGateway ?ts examplePayload None =
          (Inr result, map (\<lambda>b. buildMessage b examplePayload None) (splitBatches ?ts 0 []))"
    and inv: "set (invalidTokens result) =
            Some ` (\<Union>k < length (splitBatches ?ts 0 []).
                      set (reportedInvalid (splitBatches ?ts 0 [] ! k)
                             (responseTo rejectingGateway examplePayload None k (splitBatches ?ts 0 [] ! k))))"
    using send_batch_notifications[of ?ts rejectingGateway examplePayload None] hyp by blast
  have "set (invalidTokens result) = {Some ''token''}"
    unfolding inv reportedInvalid_rejecting bs
    by (simp add: numeral_2_eq_2 lessThan_Suc)
  moreover have "map (\<lambda>message. length (mm_tokens message))
     (snd (sendBatchNotifications rejectingGateway ?ts examplePayload None)) = [500, 100]"
    unfolding r bs by (simp add: buildMessage_def)
  ultimately show ?thesis
    using r by simp
qed

section \<open>Properties of the notification engine\<close>

lemma logCall_simps [simp]:
  "st_events (logCall a s) = st_events s"
  "st_trace (logCall a s) = st_trace s @ [a]"
  "st_total (logCall a s) = st_total s"
  by (simp_all add: logCall_def)

lemma saveEvent_Inr:
  "saveEvent env i s event = Inr s' \<Longrightarrow>
     st_trace s' = st_trace s \<and> st_total s' = st_total s \<and>
     (\<forall>k. k \<noteq> e_id event \<longrightarrow> st_events s' k = st_events s k)"
  by (auto simp: saveEvent_def split: option.splits)

lemma saveEvent_throws:
  "env_saveEventThrows env i = Some err \<Longrightarrow> saveEvent env i s event = Inl err"
  by (simp add: saveEvent_def)

lemma markEventNotified_Inr:
  "markEventNotified env i s eventId = Inr s' \<Longrightarrow>
     st_trace s' = st_trace s \<and> st_total s' = st_total s \<and>
     (\<forall>k. k \<noteq> eventId \<longrightarrow> st_events s' k = st_events s k)"
  by (auto simp: markEventNotified_def split: option.splits)

lemma processEvent_skip:
  assumes "st_events s (e_id event) = Some ex" "e_notified ex"
  shows "processEvent env i event s = logCall (GetEventCall i (e_id event)) s"
  using assms
  by (simp add: processEvent_def getEvent_def Let_def split: option.splits)

lemma processEvent_save_throws:
  assumes "env_saveEventThrows env i = Some err"
  shows "processEvent env i event s =
     (if env_getEventThrows env i \<noteq> None \<or>
         (case st_events s (e_id event) of None \<Rightarrow> False | Some ex \<Rightarrow> e_notified ex)
      then logCall (GetEventCall i (e_id event)) s
      else logCall (SaveEventCall i (e_id event)) (logCall (GetEventCall i (e_id event)) s))"
  using assms
  by (simp add: processEvent_def getEvent_def saveEvent_def Let_def split: option.splits)

lemma processEvent_effect:
  "\<exists>new. st_trace (processEvent env i event s) = st_trace s @ GetEventCall i (e_id event) # new \<and>
     (\<forall>a \<in> set new. actionIndex a = i \<and> actionEventId a = e_id event) \<and>
     (\<forall>k. k \<noteq> e_id event \<longrightarrow> st_events (processEvent env i event s) k = st_events s k)"
  by (auto simp: processEvent_def Let_def getEvent_def
      split: sum.splits option.splits prod.splits if_splits
      dest!: saveEvent_Inr markEventNotified_Inr)

lemma processEvent_effect_throws:
  assumes "env_saveEventThrows env i = Some err"
  shows "\<exists>new. st_trace (processEvent env i event s) = st_trace s @ GetEventCall i (e_id event) # new \<and>
     set new \<subseteq> {SaveEventCall i (e_id event)} \<and>
     st_events (processEvent env i event s) = st_events s \<and>
     st_total (processEvent env i event s) = st_total s"
  unfolding processEvent_save_throws[OF assms]
  by simp

lemma processEvent_trace:
  "\<exists>new. st_trace (processEvent env i event s) = st_trace s @ GetEventCall i (e_id event) # new \<and>
     (\<forall>a \<in> set new. actionIndex a = i \<and> actionEventId a = e_id event) \<and>
     (env_saveEventThrows env i \<noteq> None \<longrightarrow> set new \<subseteq> {SaveEventCall i (e_id event)})"
proof (cases "env_saveEventThrows env i")
  case None
  then show ?thesis
    using processEvent_effect[of env i event s] by auto
next
  case (Some err)
  obtain new where
    "st_trace (processEvent env i event s) = st_trace s @ GetEventCall i (e_id event) # new"
    "set new \<subseteq> {SaveEventCall i (e_id event)}"
    using processEvent_effect_throws[OF Some, of event s] by blast
  then show ?thesis
    by (intro exI[of _ new]) auto
qed

lemma processEvent_notified:
  assumes "st_events s eid = Some ex" "e_notified ex"
  shows "st_events (processEvent env i event s) eid = Some ex \<and>
    (\<exists>new. st_trace (processEvent env i event s) = st_trace s @ new \<and>
       (\<forall>a \<in> set new. actionEventId a = eid \<longrightarrow> (\<exists>j. a = GetEventCall j eid)))"
proof (cases "e_id event = eid")
  case True
  have "processEvent env i event s = logCall (GetEventCall i eid) s"
    using processEvent_skip[of s event ex env i] assms True by simp
  then show ?thesis using assms by simp
next
  case False
  obtain new where
    t: "st_trace (processEvent env i event s) = st_trace s @ GetEventCall i (e_id event) # new"
    and n: "\<forall>a \<in> set new. actionIndex a = i \<and> actionEventId a = e_id event"
    and k: "\<forall>k. k \<noteq> e_id event \<longrightarrow> st_events (processEvent env i event s) k = st_events s k"
    using processEvent_effect[of env i event s] by blast
  have "st_events (processEvent env i event s) eid = Some ex"
    using k False assms(1) by simp
  moreover have "\<forall>a \<in> set (GetEventCall i (e_id event) # new).
      actionEventId a = eid \<longrightarrow> (\<exists>j. a = GetEventCall j eid)"
    using n False by auto
  ultimately show ?thesis using t by blast
qed

lemma processLoop_notified:
  assumes "st_events s eid = Some ex" "e_notified ex"
  shows "st_events (processLoop env i events s) eid = Some ex \<and>
    (\<exists>new. st_trace (processLoop env i events s) = st_trace s @ new \<and>
       (\<forall>a \<in> set new. actionEventId a = eid \<longrightarrow> (\<exists>j. a = GetEventCall j eid)))"
  using assms(1)
proof (induction events arbitrary: i s)
  case Nil
  then show ?case by simp
next
  case (Cons event rest)
  let ?s' = "processEvent env i event s"
  obtain new1 where
    s1: "st_events ?s' eid = Some ex"
    and t1: "st_trace ?s' = st_trace s @ new1"
    and a1: "\<forall>a \<in> set new1. actionEventId a = eid \<longrightarrow> (\<exists>j. a = GetEventCall j eid)"
    using processEvent_notified[OF Cons.prems assms(2), of env i event] by blast
  obtain new2 where
    s2: "st_events (processLoop env (Suc i) rest ?s') eid = Some ex"
    and t2: "st_trace (processLoop env (Suc i) rest ?s') = st_trace ?s' @ new2"
    and a2: "\<forall>a \<in> set new2. actionEventId a = eid \<longrightarrow> (\<exists>j. a = GetEventCall j eid)"
    using Cons.IH[OF s1, of "Suc i"] by blast
  have "st_trace (processLoop env i (event # rest) s) = st_trace s @ (new1 @ new2)"
    using t1 t2 by simp
  moreover have "\<forall>a \<in> set (new1 @ new2). actionEventId a = eid \<longrightarrow> (\<exists>j. a = GetEventCall j eid)"
    using a1 a2 by auto
  ultimately show ?case using s2 by simp
qed

lemma processLoop_trace:
  "\<exists>new. st_trace (processLoop env i events s) = st_trace s @ new \<and>
     (\<forall>j < length events. GetEventCall (i + j) (e_id (events ! j)) \<in> set new) \<and>
     (\<forall>a \<in> set new. i \<le> actionIndex a \<and> actionIndex a < i + length events \<and>
        (env_saveEventThrows env (actionIndex a) \<noteq> None \<longrightarrow>
           a = GetEventCall (actionIndex a) (e_id (events ! (actionIndex a - i))) \<or>
           a = SaveEventCall (actionIndex a) (e_id (events ! (actionIndex a - i)))))"
proof (induction events arbitrary: i s)
  case Nil
  then show ?case by simp
next
  case (Cons event rest)
  let ?s' = "processEvent env i event s"
  obtain new1 where
    t1: "st_trace ?s' = st_trace s @ GetEventCall i (e_id event) # new1"
    and a1: "\<forall>a \<in> set new1. actionIndex a = i \<and> actionEventId a = e_id event"
    and f1: "env_saveEventThrows env i \<noteq> None \<longrightarrow> set new1 \<subseteq> {SaveEventCall i (e_id event)}"
    using processEvent_trace[of env i event s] by blast
  obtain new2 where
    t2: "st_trace (processLoop env (Suc i) rest ?s') = st_trace ?s' @ new2"
    and g2: "\<forall>j < length rest. GetEventCall (Suc i + j) (e_id (rest ! j)) \<in> set new2"
    and a2: "\<forall>a \<in> set new2. Suc i \<le> actionIndex a \<and> actionIndex a < Suc i + length rest \<and>
        (env_saveEventThrows env (actionIndex a) \<noteq> None \<longrightarrow>
           a = GetEventCall (actionIndex a) (e_id (rest ! (actionIndex a - Suc i))) \<or>
           a = SaveEventCall (actionIndex a) (e_id (rest ! (actionIndex a - Suc i))))"
    using Cons.IH[of "Suc i" ?s'] by blast
  let ?new = "GetEventCall i (e_id event) # new1 @ new2"
  have t: "st_trace (processLoop env i (event # rest) s) = st_trace s @ ?new"
    using t1 t2 by simp
  have g: "\<forall>j < length (event # rest). GetEventCall (i + j) (e_id ((event # rest) ! j)) \<in> set ?new"
  proof (intro allI impI)
    fix j assume j: "j < length (event # rest)"
    show "GetEventCall (i + j) (e_id ((event # rest) ! j)) \<in> set ?new"
    proof (cases j)
      case 0
      then show ?thesis by simp
    next
      case (Suc j')
      then have "GetEventCall (Suc i + j') (e_id (rest ! j')) \<in> set new2"
        using g2 j by simp
      then show ?thesis using Suc by simp
    qed
  qed
  have a: "\<forall>a \<in> set ?new. i \<le> actionIndex a \<and> actionIndex a < i + length (event # rest) \<and>
        (env_saveEventThrows env (actionIndex a) \<noteq> None \<longrightarrow>
           a = GetEventCall (actionIndex a) (e_id ((event # rest) ! (actionIndex a - i))) \<or>
           a = SaveEventCall (actionIndex a) (e_id ((event # rest) ! (actionIndex a - i))))"
  proof
    fix a assume "a \<in> set ?new"
    then consider "a = GetEventCall i (e_id event)" | "a \<in> set new1" | "a \<in> set new2"
      by auto
    then show "i \<le> actionIndex a \<and> actionIndex a < i + length (event # rest) \<and>
        (env_saveEventThrows env (actionIndex a) \<noteq> None \<longrightarrow>
           a = GetEventCall (actionIndex a) (e_id ((event # rest) ! (actionIndex a - i))) \<or>
           a = SaveEventCall (actionIndex a) (e_id ((event # rest) ! (actionIndex a - i))))"
    proof cases
      case 1
      then show ?thesis by simp
    next
      case 2
      then have "actionIndex a = i" using a1 by simp
      then show ?thesis using 2 f1 by auto
    next
      case 3
      then have b: "Suc i \<le> actionIndex a" "actionIndex a < Suc i + length rest"
        and c: "env_saveEventThrows env (actionIndex a) \<noteq> None \<longrightarrow>
           a = GetEventCall (actionIndex a) (e_id (rest ! (actionIndex a - Suc i))) \<or>
           a = SaveEventCall (actionIndex a) (e_id (rest ! (actionIndex a - Suc i)))"
        using a2 by simp_all
      have "actionIndex a - i = Suc (actionIndex a - Suc i)"
        using b(1) by simp
      then have "(event # rest) ! (actionIndex a - i) = rest ! (actionIndex a - Suc i)"
        by simp
      then show ?thesis using b c by simp
    qed
  qed
  show ?case
    using t g a by blast
qed

subsection \<open>Concrete runs\<close>

lemma startEvents_eq:
  "startEvents = opt_list (detectGameStart (\<lambda>k. 0) (Some (exampleGame SCHEDULED 0 0 None)) (exampleGame LIVE 0 0 None))"
  unfolding startEvents_def detectCommonEvents_eq
  by (simp add: detectGameEnd_def detectBlowout_def detectCloseGame_def
          detectFinalPeriod_def detectStatusChange_def getPointDifferential_def exampleGame_def)

lemma startEvents_val: "startEvents = [startEvent]"
  unfolding startEvents_eq
  by (simp add: detectGameStart_def generateEventId_def exampleGame_def gameTeams_def startEvent_def)

lemma subscriber_ok: "shouldNotifyUser (12, 0) subscriber NBA GAME_START (Some [''LAL'', ''BOS''])"
  by (simp add: subscriber_def examplePrefs_def rivalryPrefs_def shouldNotifyUser_def quietHoursReject_def
        teamCheckRejects_def truthyStr_def nth_opt_def)

lemma exampleEnv_simps:
  "env_getEventThrows exampleEnv i = None"
  "env_saveEventThrows exampleEnv i = None"
  "env_markThrows exampleEnv i = None"
  "env_merge exampleEnv old event = event"
  "env_timestampNow exampleEnv i = 1000"
  "env_preferencesDocs exampleEnv i j = Inr [subscriber]"
  "env_localTime exampleEnv i j = (12, 0)"
  "env_gateway exampleEnv i = acceptingGateway"
  by (simp_all add: exampleEnv_def)

lemma saveFailsAt_simps:
  "env_getEventThrows (saveFailsAt n) i = None"
  "env_saveEventThrows (saveFailsAt n) i = (if i = n then Some (Thrown ''unavailable'') else None)"
  "env_markThrows (saveFailsAt n) i = None"
  "env_merge (saveFailsAt n) old event = event"
  "env_timestampNow (saveFailsAt n) i = 1000"
  "env_preferencesDocs (saveFailsAt n) i j = Inr [subscriber]"
  "env_localTime (saveFailsAt n) i j = (12, 0)"
  "env_gateway (saveFailsAt n) i = acceptingGateway"
  by (simp_all add: saveFailsAt_def exampleEnv_def)

lemma startEvent_users:
  assumes "env_preferencesDocs env i 0 = Inr [subscriber]" "env_preferencesDocs env i (Suc 0) = Inr [subscriber]"
    "env_localTime env i 0 = (12, 0)"
  shows "getTargetUsers env i startEvent = Inr [subscriber]"
proof -
  have a: "getUsersByTeam env i 0 ''LAL'' = Inr [subscriber]"
    using assms by (simp add: getUsersByTeam_def subscriber_def examplePrefs_def rivalryPrefs_def allSports_def)
  have b: "getUsersByTeam env i (Suc 0) ''BOS'' = Inr []"
    using assms by (simp add: getUsersByTeam_def subscriber_def examplePrefs_def rivalryPrefs_def allSports_def)
  have c: "deduplicateUsers [subscriber] = [subscriber]"
    by (simp add: deduplicateUsers_def)
  show ?thesis
    using subscriber_ok assms(3)
    by (simp add: getTargetUsers_def startEvent_def a b c Let_def)
qed

lemma startEvent_send:
  "sendEventNotification acceptingGateway startEvent [subscriber] =
     (Inr (1, 0), [startMessage])"
proof -
  have sp: "splitBatches [''token-u1''] 0 [] = [[''token-u1'']]"
    by (simp add: splitBatches_eq)
  show ?thesis
    by (simp add: sendEventNotification_def sendBatchNotifications_def sp Let_def startEvent_def
          subscriber_def examplePrefs_def acceptingGateway_def startMessage_def buildMessage_def)
qed

lemma first_run:
  "processEvents exampleEnv startEvents Map.empty =
     \<lparr> st_events = [''nba_0022600800_GAME_START'' \<mapsto> startEvent\<lparr> e_notified := True, e_notifiedAt := Some 1000 \<rparr>],
       st_trace = [GetEventCall 0 ''nba_0022600800_GAME_START'',
                   SaveEventCall 0 ''nba_0022600800_GAME_START'',
                   GetTargetUsersCall 0 ''nba_0022600800_GAME_START'',
                   SendEventNotificationCall 0 ''nba_0022600800_GAME_START'',
                   GatewaySubmit 0 ''nba_0022600800_GAME_START'' startMessage,
                   MarkEventNotifiedCall 0 ''nba_0022600800_GAME_START''],
       st_total = 1 \<rparr>"
proof -
  have id: "e_id startEvent = ''nba_0022600800_GAME_START''"
    by (simp add: startEvent_def)
  show ?thesis
    unfolding startEvents_val processEvents_def
    by (simp add: processEvent_def getEvent_def saveEvent_def markEventNotified_def logCall_def
        exampleEnv_simps startEvent_users startEvent_send id Let_def)
qed

lemma threeEvents_ids:
  "map e_id threeEvents =
     [''nba_0022600800_GAME_START'', ''nba_0022600800_BLOWOUT'', ''nba_0022600800_FINAL_PERIOD'']"
proof -
  have t: "map e_type threeEvents = [GAME_START, BLOWOUT, FINAL_PERIOD]"
    unfolding threeEvents_def types_detectCommonEvents
    by (simp add: getPointDifferential_def exampleGame_def)
  have "map e_id threeEvents =
      map (\<lambda>t. generateEventId (g_id (exampleGame LIVE 122 97 (Some 4))) t None)
        (map e_type threeEvents)"
    unfolding threeEvents_def by (simp add: id_of_detected)
  then show ?thesis
    unfolding t by (simp add: generateEventId_None exampleGame_def)
qed

subsection \<open>A run and the run without a failed event\<close>

lemma loadUsers_cong:
  "env_getPreferences env i = env_getPreferences env' i' \<Longrightarrow>
   loadUsers env i ids j users = loadUsers env' i' ids j users"
  by (induction ids arbitrary: j users) (simp_all split: sum.splits option.splits)

lemma getUsersByTeam_cong:
  "env_preferencesDocs env i = env_preferencesDocs env' i' \<Longrightarrow>
   getUsersByTeam env i j teamId = getUsersByTeam env' i' j teamId"
  by (simp add: getUsersByTeam_def)

lemma loadTeamUsers_cong:
  "env_preferencesDocs env i = env_preferencesDocs env' i' \<Longrightarrow>
   loadTeamUsers env i teams j users = loadTeamUsers env' i' teams j users"
  by (induction teams arbitrary: j users)
     (simp_all add: getUsersByTeam_cong[of env i env' i'] split: sum.splits)

lemma filterUsers_cong:
  "env_localTime env i = env_localTime env' i' \<Longrightarrow>
   filterUsers env i sport et teamIds users j = filterUsers env' i' sport et teamIds users j"
  by (induction users arbitrary: j) simp_all

lemma getTargetUsers_cong:
  assumes "env_getPreferences env i = env_getPreferences env' i'"
    "env_preferencesDocs env i = env_preferencesDocs env' i'"
    "env_localTime env i = env_localTime env' i'"
  shows "getTargetUsers env i event = getTargetUsers env' i' event"
  unfolding getTargetUsers_def
    loadUsers_cong[OF assms(1)] loadTeamUsers_cong[OF assms(2)] filterUsers_cong[OF assms(3)]
  by (rule refl)

lemma processEvent_cong:
  assumes g: "env_getEventThrows env j = env_getEventThrows env' j'"
    and sv: "env_saveEventThrows env j = env_saveEventThrows env' j'"
    and mk: "env_markThrows env j = env_markThrows env' j'"
    and mg: "env_merge env = env_merge env'"
    and ts: "env_timestampNow env j = env_timestampNow env' j'"
    and tu: "getTargetUsers env j event = getTargetUsers env' j' event"
    and gw: "env_gateway env j = env_gateway env' j'"
    and st: "st_events s = st_events s'" "st_total s = st_total s'"
  shows "st_events (processEvent env j event s) = st_events (processEvent env' j' event s') \<and>
         st_total (processEvent env j event s) = st_total (processEvent env' j' event s') \<and>
         eventCalls env j event s = map (reindexAction (\<lambda>n. j)) (eventCalls env' j' event s')"
  unfolding eventCalls_def processEvent_def getEvent_def saveEvent_def markEventNotified_def
    logCall_def Let_def g sv mk mg ts tu gw
  using st
  by (simp split: option.splits sum.splits prod.splits add: comp_def)

lemma processEvents_loop:
  "processEvents env events store =
     processLoop env 0 events \<lparr> st_events = store, st_trace = [], st_total = 0 \<rparr>"
  by (cases events) (simp_all add: processEvents_def)

lemma processLoop_append:
  "processLoop env k (xs @ ys) s = processLoop env (k + length xs) ys (processLoop env k xs s)"
  by (induction xs arbitrary: k s) simp_all

lemma trace_eventCalls:
  "st_trace (processEvent env j event s) = st_trace s @ eventCalls env j event s"
  using processEvent_effect[of env j event s] by (auto simp: eventCalls_def)

lemma index_eventCalls:
  "a \<in> set (eventCalls env j event s) \<Longrightarrow> actionIndex a = j"
  using processEvent_effect[of env j event s] by (auto simp: eventCalls_def)

lemma reindexAction_const:
  "actionIndex a = j \<Longrightarrow> reindexAction f a = reindexAction (\<lambda>n. f j) a"
  by (cases a) simp_all

lemma skipIndex_neq: "skipIndex i j \<noteq> i"
  by (simp add: skipIndex_def)

lemma envWithoutEvent_simps:
  "env_getEventThrows (envWithoutEvent i env) j = env_getEventThrows env (skipIndex i j)"
  "env_saveEventThrows (envWithoutEvent i env) j = env_saveEventThrows env (skipIndex i j)"
  "env_markThrows (envWithoutEvent i env) j = env_markThrows env (skipIndex i j)"
  "env_merge (envWithoutEvent i env) = env_merge env"
  "env_timestampNow (envWithoutEvent i env) j = env_timestampNow env (skipIndex i j)"
  "env_getPreferences (envWithoutEvent i env) j = env_getPreferences env (skipIndex i j)"
  "env_preferencesDocs (envWithoutEvent i env) j = env_preferencesDocs env (skipIndex i j)"
  "env_localTime (envWithoutEvent i env) j = env_localTime env (skipIndex i j)"
  "env_gateway (envWithoutEvent i env) j = env_gateway env (skipIndex i j)"
  by (simp_all add: envWithoutEvent_def)

lemma step_without:
  assumes ev: "st_events s = st_events s'" and tot: "st_total s = st_total s'"
    and tr: "filter (\<lambda>a. actionIndex a \<noteq> i) (st_trace s) =
             map (reindexAction (skipIndex i)) (st_trace s')"
  shows "st_events (processEvent env (skipIndex i j) event s) =
           st_events (processEvent (envWithoutEvent i env) j event s') \<and>
         st_total (processEvent env (skipIndex i j) event s) =
           st_total (processEvent (envWithoutEvent i env) j event s') \<and>
         filter (\<lambda>a. actionIndex a \<noteq> i) (st_trace (processEvent env (skipIndex i j) event s)) =
           map (reindexAction (skipIndex i)) (st_trace (processEvent (envWithoutEvent i env) j event s'))"
proof -
  let ?env' = "envWithoutEvent i env"
  let ?k = "skipIndex i j"
  have tu: "getTargetUsers env ?k event = getTargetUsers ?env' j event"
    by (rule getTargetUsers_cong) (simp_all add: envWithoutEvent_simps)
  have c: "st_events (processEvent env ?k event s) = st_events (processEvent ?env' j event s') \<and>
         st_total (processEvent env ?k event s) = st_total (processEvent ?env' j event s') \<and>
         eventCalls env ?k event s = map (reindexAction (\<lambda>n. ?k)) (eventCalls ?env' j event s')"
    by (rule processEvent_cong) (simp_all add: envWithoutEvent_simps tu ev tot)
  have same: "map (reindexAction (skipIndex i)) (eventCalls ?env' j event s') =
      map (reindexAction (\<lambda>n. ?k)) (eventCalls ?env' j event s')"
    by (rule map_cong[OF refl]) (erule reindexAction_const[OF index_eventCalls])
  have keep: "filter (\<lambda>a. actionIndex a \<noteq> i) (eventCalls env ?k event s) = eventCalls env ?k event s"
    unfolding filter_id_conv using index_eventCalls[of _ env ?k event s] skipIndex_neq[of i j]
    by auto
  have "filter (\<lambda>a. actionIndex a \<noteq> i) (st_trace (processEvent env ?k event s)) =
      filter (\<lambda>a. actionIndex a \<noteq> i) (st_trace s) @ eventCalls env ?k event s"
    unfolding trace_eventCalls filter_append keep by (rule refl)
  also have "\<dots> = map (reindexAction (skipIndex i)) (st_trace s') @
      map (reindexAction (skipIndex i)) (eventCalls ?env' j event s')"
    unfolding tr same using c by simp
  also have "\<dots> = map (reindexAction (skipIndex i)) (st_trace (processEvent ?env' j event s'))"
    unfolding trace_eventCalls[of ?env' j event s'] by simp
  finally show ?thesis using c by blast
qed

lemma loop_without:
  assumes "st_events s = st_events s'" "st_total s = st_total s'"
    "filter (\<lambda>a. actionIndex a \<noteq> i) (st_trace s) = map (reindexAction (skipIndex i)) (st_trace s')"
    "\<forall>n < length es. skipIndex i (k' + n) = k + n"
  shows "st_events (processLoop env k es s) =
           st_events (processLoop (envWithoutEvent i env) k' es s') \<and>
         st_total (processLoop env k es s) =
           st_total (processLoop (envWithoutEvent i env) k' es s') \<and>
         filter (\<lambda>a. actionIndex a \<noteq> i) (st_trace (processLoop env k es s)) =
           map (reindexAction (skipIndex i)) (st_trace (processLoop (envWithoutEvent i env) k' es s'))"
  using assms
proof (induction es arbitrary: k k' s s')
  case Nil
  then show ?case by simp
next
  case (Cons event rest)
  have k: "skipIndex i k' = k"
    using Cons.prems(4) by force
  have step: "st_events (processEvent env k event s) =
           st_events (processEvent (envWithoutEvent i env) k' event s')"
    "st_total (processEvent env k event s) =
           st_total (processEvent (envWithoutEvent i env) k' event s')"
    "filter (\<lambda>a. actionIndex a \<noteq> i) (st_trace (processEvent env k event s)) =
           map (reindexAction (skipIndex i)) (st_trace (processEvent (envWithoutEvent i env) k' event s'))"
    using step_without[OF Cons.prems(1,2,3), of env k' event] unfolding k by simp_all
  have idx: "\<forall>n < length rest. skipIndex i (Suc k' + n) = Suc k + n"
  proof (intro allI impI)
    fix n assume "n < length rest"
    then have "Suc n < length (event # rest)" by simp
    from Cons.prems(4)[rule_format, OF this] show "skipIndex i (Suc k' + n) = Suc k + n"
      by simp
  qed
  show ?case
    using Cons.IH[OF step idx] by simp
qed

lemma run_without_failed:
  assumes i: "i < length events" and thr: "env_saveEventThrows env i = Some err"
  shows "st_events (processEvents env events store) =
           st_events (processEvents (envWithoutEvent i env) (withoutEvent i events) store) \<and>
         st_total (processEvents env events store) =
           st_total (processEvents (envWithoutEvent i env) (withoutEvent i events) store) \<and>
         filter (\<lambda>a. actionIndex a \<noteq> i) (st_trace (processEvents env events store)) =
           map (reindexAction (skipIndex i))
             (st_trace (processEvents (envWithoutEvent i env) (withoutEvent i events) store))"
proof -
  let ?env' = "envWithoutEvent i env"
  let ?pre = "take i events" and ?post = "drop (Suc i) events" and ?ev = "events ! i"
  let ?init = "\<lparr> st_events = store, st_trace = [], st_total = 0 \<rparr>"
  let ?s1 = "processLoop env 0 ?pre ?init" and ?s1' = "processLoop ?env' 0 ?pre ?init"
  let ?s2 = "processEvent env i ?ev ?s1"
  have len: "length ?pre = i" using i by simp
  have split: "events = ?pre @ ?ev # ?post"
    using i by (rule id_take_nth_drop)
  have full: "processEvents env events store = processLoop env (Suc i) ?post ?s2"
  proof -
    have "processEvents env events store = processLoop env 0 (?pre @ ?ev # ?post) ?init"
      unfolding processEvents_loop using split by simp
    also have "\<dots> = processLoop env (Suc i) ?post ?s2"
      unfolding processLoop_append len by simp
    finally show ?thesis .
  qed
  have short: "processEvents ?env' (withoutEvent i events) store = processLoop ?env' i ?post ?s1'"
    unfolding processEvents_loop withoutEvent_def processLoop_append len by simp
  have pre_idx: "\<forall>n < length ?pre. skipIndex i (0 + n) = 0 + n"
    using len by (simp add: skipIndex_def)
  have r1: "st_events ?s1 = st_events ?s1'" "st_total ?s1 = st_total ?s1'"
    "filter (\<lambda>a. actionIndex a \<noteq> i) (st_trace ?s1) = map (reindexAction (skipIndex i)) (st_trace ?s1')"
    using loop_without[of ?init ?init i ?pre 0 0 env, OF refl refl _ pre_idx] by simp_all
  obtain calls where
    t2: "st_trace ?s2 = st_trace ?s1 @ GetEventCall i (e_id ?ev) # calls"
    and c2: "set calls \<subseteq> {SaveEventCall i (e_id ?ev)}"
    and e2: "st_events ?s2 = st_events ?s1" and n2: "st_total ?s2 = st_total ?s1"
    using processEvent_effect_throws[OF thr, of ?ev ?s1] by blast
  have "filter (\<lambda>a. actionIndex a \<noteq> i) calls = []"
    unfolding filter_empty_conv using c2 by auto
  then have f2: "filter (\<lambda>a. actionIndex a \<noteq> i) (st_trace ?s2) =
      filter (\<lambda>a. actionIndex a \<noteq> i) (st_trace ?s1)"
    unfolding t2 by simp
  have r2: "st_events ?s2 = st_events ?s1'" "st_total ?s2 = st_total ?s1'"
    "filter (\<lambda>a. actionIndex a \<noteq> i) (st_trace ?s2) = map (reindexAction (skipIndex i)) (st_trace ?s1')"
    using r1 e2 n2 f2 by simp_all
  have post_idx: "\<forall>n < length ?post. skipIndex i (i + n) = Suc i + n"
    by (simp add: skipIndex_def)
  show ?thesis
    unfolding full short
    by (rule loop_without[OF r2 post_idx])
qed

subsection \<open>A concrete run with a failing save\<close>

lemma detected_audience:
  assumes "e \<in> set (detectCommonEvents clk previous current)"
  shows "e_sport e = g_sport current \<and> e_targetAudience e = Some (gameTeams current)"
proof -
  have "detectGameStart clk previous current = Some e \<Longrightarrow> ?thesis"
    by (auto simp: detectGameStart_def Let_def split: if_splits)
  moreover have "detectGameEnd clk previous current = Some e \<Longrightarrow> ?thesis"
    by (auto simp: detectGameEnd_def Let_def split: if_splits)
  moreover have "detectBlowout clk previous current = Some e \<Longrightarrow> ?thesis"
    by (auto simp: detectBlowout_def Let_def split: if_splits)
  moreover have "detectCloseGame clk previous current = Some e \<Longrightarrow> ?thesis"
    by (auto simp: detectCloseGame_def Let_def split: if_splits option.splits)
  moreover have "detectFinalPeriod clk previous current = Some e \<Longrightarrow> ?thesis"
    by (auto simp: detectFinalPeriod_def Let_def split: if_splits option.splits)
  moreover have "detectStatusChange clk previous current = Some e \<Longrightarrow> ?thesis"
    by (auto simp: detectStatusChange_def Let_def split: if_splits)
  ultimately show ?thesis
    using mem_detectCommonEvents[OF assms] by blast
qed

lemma subscriber_accepts:
  "shouldNotifyUser (12, 0) subscriber NBA et (Some [''LAL'', ''BOS''])"
  by (simp add: subscriber_def examplePrefs_def rivalryPrefs_def shouldNotifyUser_def
        quietHoursReject_def teamCheckRejects_def truthyStr_def nth_opt_def)

lemma subscriber_targeted:
  assumes "env_preferencesDocs env j 0 = Inr [subscriber]"
    "env_preferencesDocs env j (Suc 0) = Inr [subscriber]"
    "env_localTime env j 0 = (12, 0)"
    and "e_sport event = NBA"
    "e_targetAudience event = Some (gameTeams (exampleGame st hs as p))"
  shows "getTargetUsers env j event = Inr [subscriber]"
proof -
  have a: "getUsersByTeam env j 0 ''LAL'' = Inr [subscriber]"
    using assms(1) by (simp add: getUsersByTeam_def subscriber_def examplePrefs_def
        rivalryPrefs_def allSports_def)
  have b: "getUsersByTeam env j (Suc 0) ''BOS'' = Inr []"
    using assms(2) by (simp add: getUsersByTeam_def subscriber_def examplePrefs_def
        rivalryPrefs_def allSports_def)
  have c: "deduplicateUsers [subscriber] = [subscriber]"
    by (simp add: deduplicateUsers_def)
  show ?thesis
    using subscriber_accepts assms(3,4,5)
    by (simp add: getTargetUsers_def gameTeams_def exampleGame_def a b c Let_def)
qed

lemma accepting_send:
  "\<exists>message. sendEventNotification acceptingGateway event [subscriber] = (Inr (1, 0), [message])"
proof -
  have sp: "splitBatches [''token-u1''] 0 [] = [[''token-u1'']]"
    by (simp add: splitBatches_eq)
  show ?thesis
    by (simp add: sendEventNotification_def sendBatchNotifications_def sp Let_def
          subscriber_def examplePrefs_def acceptingGateway_def buildMessage_def)
qed

lemma processEvent_delivers:
  assumes env: "env_getEventThrows env j = None" "env_saveEventThrows env j = None"
      "env_markThrows env j = None" "env_merge env = (\<lambda>old event. event)"
      "env_timestampNow env j = 1000" "env_gateway env j = acceptingGateway"
    and users: "getTargetUsers env j event = Inr [subscriber]"
    and fresh: "st_events s (e_id event) = None"
  shows "st_total (processEvent env j event s) = st_total s + 1 \<and>
         st_events (processEvent env j event s) =
           (st_events s)(e_id event \<mapsto> event\<lparr> e_notified := True, e_notifiedAt := Some 1000 \<rparr>) \<and>
         SendEventNotificationCall j (e_id event) \<in> set (st_trace (processEvent env j event s)) \<and>
         MarkEventNotifiedCall j (e_id event) \<in> set (st_trace (processEvent env j event s))"
proof -
  obtain message where
    m: "sendEventNotification acceptingGateway event [subscriber] = (Inr (1, 0), [message])"
    using accepting_send by blast
  show ?thesis
    by (simp add: processEvent_def getEvent_def saveEvent_def markEventNotified_def logCall_def
        env users fresh m Let_def)
qed

lemma trace_grows:
  "a \<in> set (st_trace s) \<Longrightarrow> a \<in> set (st_trace (processEvent env j event s))"
  by (simp add: trace_eventCalls)

lemma failing_run:
  "st_total (processEvents (saveFailsAt 0) threeEvents Map.empty) = 2
   \<and> st_events (processEvents (saveFailsAt 0) threeEvents Map.empty) ''nba_0022600800_GAME_START'' = None
   \<and> map_option e_notified (st_events (processEvents (saveFailsAt 0) threeEvents Map.empty)
        ''nba_0022600800_BLOWOUT'') = Some True
   \<and> map_option e_notified (st_events (processEvents (saveFailsAt 0) threeEvents Map.empty)
        ''nba_0022600800_FINAL_PERIOD'') = Some True
   \<and> SendEventNotificationCall 1 ''nba_0022600800_BLOWOUT''
        \<in> set (st_trace (processEvents (saveFailsAt 0) threeEvents Map.empty))
   \<and> MarkEventNotifiedCall 1 ''nba_0022600800_BLOWOUT''
        \<in> set (st_trace (processEvents (saveFailsAt 0) threeEvents Map.empty))
   \<and> SendEventNotificationCall 2 ''nba_0022600800_FINAL_PERIOD''
        \<in> set (st_trace (processEvents (saveFailsAt 0) threeEvents Map.empty))
   \<and> MarkEventNotifiedCall 2 ''nba_0022600800_FINAL_PERIOD''
        \<in> set (st_trace (processEvents (saveFailsAt 0) threeEvents Map.empty))"
proof -
  let ?env = "saveFailsAt 0"
  let ?init = "\<lparr> st_events = Map.empty, st_trace = [], st_total = 0 \<rparr>"
  have "length (map e_id threeEvents) = 3"
    unfolding threeEvents_ids by simp
  then have "length threeEvents = 3" by simp
  then obtain e0 e1 e2 where es: "threeEvents = [e0, e1, e2]"
    by (auto simp: length_Suc_conv numeral_3_eq_3)
  have ids: "e_id e0 = ''nba_0022600800_GAME_START''" "e_id e1 = ''nba_0022600800_BLOWOUT''"
    "e_id e2 = ''nba_0022600800_FINAL_PERIOD''"
    using threeEvents_ids unfolding es by simp_all
  have aud: "e_sport e = NBA \<and>
      e_targetAudience e = Some (gameTeams (exampleGame LIVE 122 97 (Some 4)))"
    if "e \<in> set threeEvents" for e
    using detected_audience[of e "\<lambda>k. 0" None "exampleGame LIVE 122 97 (Some 4)"] that
    by (simp add: threeEvents_def exampleGame_def)
  have users: "getTargetUsers ?env j e = Inr [subscriber]" if "e \<in> set threeEvents" for e j
    using aud[OF that]
    by (intro subscriber_targeted[of ?env j e LIVE 122 97 "Some 4"])
       (simp_all add: saveFailsAt_simps)
  let ?s1 = "processEvent ?env 0 e0 ?init"
  let ?s2 = "processEvent ?env 1 e1 ?s1"
  let ?s3 = "processEvent ?env 2 e2 ?s2"
  have run: "processEvents ?env threeEvents Map.empty = ?s3"
    unfolding processEvents_loop es by (simp add: numeral_2_eq_2)
  have thr: "env_saveEventThrows ?env 0 = Some (Thrown ''unavailable'')"
    by (simp add: saveFailsAt_simps)
  obtain calls where s1: "st_events ?s1 = Map.empty" "st_total ?s1 = 0"
    using processEvent_effect_throws[OF thr, of e0 ?init] by auto
  have d2: "st_total ?s2 = st_total ?s1 + 1 \<and>
      st_events ?s2 = (st_events ?s1)(e_id e1 \<mapsto> e1\<lparr> e_notified := True, e_notifiedAt := Some 1000 \<rparr>) \<and>
      SendEventNotificationCall 1 (e_id e1) \<in> set (st_trace ?s2) \<and>
      MarkEventNotifiedCall 1 (e_id e1) \<in> set (st_trace ?s2)"
    by (rule processEvent_delivers)
       (simp_all add: saveFailsAt_simps users es s1 fun_eq_iff)
  have fresh2: "st_events ?s2 (e_id e2) = None"
    using d2 s1 ids by simp
  have d3: "st_total ?s3 = st_total ?s2 + 1 \<and>
      st_events ?s3 = (st_events ?s2)(e_id e2 \<mapsto> e2\<lparr> e_notified := True, e_notifiedAt := Some 1000 \<rparr>) \<and>
      SendEventNotificationCall 2 (e_id e2) \<in> set (st_trace ?s3) \<and>
      MarkEventNotifiedCall 2 (e_id e2) \<in> set (st_trace ?s3)"
    by (rule processEvent_delivers[OF _ _ _ _ _ _ _ fresh2])
       (simp_all add: saveFailsAt_simps users es fun_eq_iff)
  have keep: "SendEventNotificationCall 1 (e_id e1) \<in> set (st_trace ?s3)"
    "MarkEventNotifiedCall 1 (e_id e1) \<in> set (st_trace ?s3)"
    using d2 by (simp_all add: trace_grows)
  show ?thesis
    unfolding run using d2 d3 s1 keep ids by simp
qed

section \<open>Claims about the notification engine\<close>

text \<open>
  C1. If the \<open>/events\<close> collection holds, for an identifier, a record with
  \<open>notified = true\<close>, then in a run of \<open>processEvents\<close> on any list of events the only
  calls made for that identifier are the lookups \<open>getEvent\<close>: no \<open>saveEvent\<close>, no
  \<open>getTargetUsers\<close>, no \<open>sendEventNotification\<close>, no gateway submission and no
  \<open>markEventNotified\<close>; the stored record is the same after the run. Hence once an
  identifier is notified, no later run dispatches it.
\<close>

theorem notified_event_skipped:
  "store eventId = Some existing \<and> e_notified existing \<longrightarrow>
     (\<forall>a \<in> set (st_trace (processEvents env events store)).
        actionEventId a = eventId \<longrightarrow> (\<exists>i. a = GetEventCall i eventId))
     \<and> st_events (processEvents env events store) eventId = Some existing"
proof
  assume a: "store eventId = Some existing \<and> e_notified existing"
  let ?s = "\<lparr> st_events = store, st_trace = [], st_total = 0 \<rparr>"
  have s: "st_events ?s eventId = Some existing" "e_notified existing"
    using a by simp_all
  show "(\<forall>a \<in> set (st_trace (processEvents env events store)).
        actionEventId a = eventId \<longrightarrow> (\<exists>i. a = GetEventCall i eventId))
     \<and> st_events (processEvents env events store) eventId = Some existing"
  proof (cases "events = []")
    case True
    then show ?thesis using a by (simp add: processEvents_def)
  next
    case False
    then have "processEvents env events store = processLoop env 0 events ?s"
      by (simp add: processEvents_def)
    then show ?thesis
      using processLoop_notified[OF s, of env 0 events] by auto
  qed
qed

text \<open>
  A first run on the start event saves, resolves, dispatches and marks it. A second run
  on the same event and on the collection the first run left only looks the event up.
\<close>

theorem notified_event_skipped_witness:
  "SendEventNotificationCall 0 ''nba_0022600800_GAME_START''
     \<in> set (st_trace (processEvents exampleEnv startEvents Map.empty))
   \<and> SaveEventCall 0 ''nba_0022600800_GAME_START''
     \<notin> set (st_trace (processEvents exampleEnv startEvents
                (st_events (processEvents exampleEnv startEvents Map.empty))))
   \<and> GetTargetUsersCall 0 ''nba_0022600800_GAME_START''
     \<notin> set (st_trace (processEvents exampleEnv startEvents
                (st_events (processEvents exampleEnv startEvents Map.empty))))
   \<and> SendEventNotificationCall 0 ''nba_0022600800_GAME_START''
     \<notin> set (st_trace (processEvents exampleEnv startEvents
                (st_events (processEvents exampleEnv startEvents Map.empty))))
   \<and> GatewaySubmit 0 ''nba_0022600800_GAME_START'' startMessage
     \<notin> set (st_trace (processEvents exampleEnv startEvents
                (st_events (processEvents exampleEnv startEvents Map.empty))))
   \<and> MarkEventNotifiedCall 0 ''nba_0022600800_GAME_START''
     \<notin> set (st_trace (processEvents exampleEnv startEvents
                (st_events (processEvents exampleEnv startEvents Map.empty))))
   \<and> st_events (processEvents exampleEnv startEvents
         (st_events (processEvents exampleEnv startEvents Map.empty)))
       ''nba_0022600800_GAME_START''
       = Some (startEvent\<lparr> e_notified := True, e_notifiedAt := Some 1000 \<rparr>)"
proof -
  let ?store = "st_events (processEvents exampleEnv startEvents Map.empty)"
  let ?id = "''nba_0022600800_GAME_START''"
  have hyp: "?store ?id = Some (startEvent\<lparr> e_notified := True, e_notifiedAt := Some 1000 \<rparr>) \<and>
      e_notified (startEvent\<lparr> e_notified := True, e_notifiedAt := Some 1000 \<rparr>)"
    by (simp add: first_run)
  have only: "\<forall>a \<in> set (st_trace (processEvents exampleEnv startEvents ?store)).
        actionEventId a = ?id \<longrightarrow> (\<exists>i. a = GetEventCall i ?id)"
    and same: "st_events (processEvents exampleEnv startEvents ?store) ?id =
        Some (startEvent\<lparr> e_notified := True, e_notifiedAt := Some 1000 \<rparr>)"
    using notified_event_skipped[of ?store ?id
            "startEvent\<lparr> e_notified := True, e_notifiedAt := Some 1000 \<rparr>"
            exampleEnv startEvents] hyp
    by blast+
  have "a \<notin> set (st_trace (processEvents exampleEnv startEvents ?store))"
    if "actionEventId a = ?id" "\<forall>i. a \<noteq> GetEventCall i ?id" for a
    using only that by blast
  then have "SaveEventCall 0 ?id \<notin> set (st_trace (processEvents exampleEnv startEvents ?store))"
    "GetTargetUsersCall 0 ?id \<notin> set (st_trace (processEvents exampleEnv startEvents ?store))"
    "SendEventNotificationCall 0 ?id \<notin> set (st_trace (processEvents exampleEnv startEvents ?store))"
    "GatewaySubmit 0 ?id startMessage \<notin> set (st_trace (processEvents exampleEnv startEvents ?store))"
    "MarkEventNotifiedCall 0 ?id \<notin> set (st_trace (processEvents exampleEnv startEvents ?store))"
    by simp_all
  moreover have "SendEventNotificationCall 0 ?id
      \<in> set (st_trace (processEvents exampleEnv startEvents Map.empty))"
    by (simp add: first_run)
  ultimately show ?thesis
    using same by blast
qed

text \<open>
  C9. If \<open>saveEvent\<close> throws for the event at position \<open>i\<close> of the list, the calls made
  for that event are its lookup and the failed save only (no audience resolution, no
  dispatch, no gateway submission, no \<open>markEventNotified\<close>), and the iteration leaves
  the \<open>/events\<close> collection and the counter as they were. The other events are processed
  as if the failed one were not in the list: every event is looked up, and the run ends
  with the same \<open>/events\<close> collection and the same number of notifications sent, and
  makes the same calls for the other events (positions renumbered), as the run on the
  list without the event at position \<open>i\<close>.
\<close>

theorem save_failure_isolated:
  "i < length events \<and> env_saveEventThrows env i = Some err \<longrightarrow>
     (\<forall>a \<in> set (st_trace (processEvents env events store)).
        actionIndex a = i \<longrightarrow>
          a = GetEventCall i (e_id (events ! i)) \<or> a = SaveEventCall i (e_id (events ! i)))
     \<and> (\<forall>j < length events.
          GetEventCall j (e_id (events ! j)) \<in> set (st_trace (processEvents env events store)))
     \<and> st_events (processEvent env i (events ! i) s) = st_events s
     \<and> st_total (processEvent env i (events ! i) s) = st_total s
     \<and> st_events (processEvents env events store) =
         st_events (processEvents (envWithoutEvent i env) (withoutEvent i events) store)
     \<and> st_total (processEvents env events store) =
         st_total (processEvents (envWithoutEvent i env) (withoutEvent i events) store)
     \<and> filter (\<lambda>a. actionIndex a \<noteq> i) (st_trace (processEvents env events store)) =
         map (reindexAction (skipIndex i))
           (st_trace (processEvents (envWithoutEvent i env) (withoutEvent i events) store))"
proof
  assume a: "i < length events \<and> env_saveEventThrows env i = Some err"
  then have i: "i < length events" and thr: "env_saveEventThrows env i = Some err"
    by auto
  let ?s0 = "\<lparr> st_events = store, st_trace = [], st_total = 0 \<rparr>"
  obtain new where
    t: "st_trace (processLoop env 0 events ?s0) = st_trace ?s0 @ new"
    and g: "\<forall>j < length events. GetEventCall (0 + j) (e_id (events ! j)) \<in> set new"
    and f: "\<forall>a \<in> set new. 0 \<le> actionIndex a \<and> actionIndex a < 0 + length events \<and>
        (env_saveEventThrows env (actionIndex a) \<noteq> None \<longrightarrow>
           a = GetEventCall (actionIndex a) (e_id (events ! (actionIndex a - 0))) \<or>
           a = SaveEventCall (actionIndex a) (e_id (events ! (actionIndex a - 0))))"
    using processLoop_trace[of env 0 events ?s0] by blast
  have tr: "st_trace (processEvents env events store) = new"
    unfolding processEvents_loop using t by simp
  have one: "\<forall>a \<in> set new. actionIndex a = i \<longrightarrow>
          a = GetEventCall i (e_id (events ! i)) \<or> a = SaveEventCall i (e_id (events ! i))"
    using f thr by auto
  have two: "\<forall>j < length events. GetEventCall j (e_id (events ! j)) \<in> set new"
    using g by simp
  obtain new1 where three:
    "st_events (processEvent env i (events ! i) s) = st_events s"
    "st_total (processEvent env i (events ! i) s) = st_total s"
    using processEvent_effect_throws[OF thr, of "events ! i" s] by blast
  note four = run_without_failed[OF i thr, of store]
  show "(\<forall>a \<in> set (st_trace (processEvents env events store)).
        actionIndex a = i \<longrightarrow>
          a = GetEventCall i (e_id (events ! i)) \<or> a = SaveEventCall i (e_id (events ! i)))
     \<and> (\<forall>j < length events.
          GetEventCall j (e_id (events ! j)) \<in> set (st_trace (processEvents env events store)))
     \<and> st_events (processEvent env i (events ! i) s) = st_events s
     \<and> st_total (processEvent env i (events ! i) s) = st_total s
     \<and> st_events (processEvents env events store) =
         st_events (processEvents (envWithoutEvent i env) (withoutEvent i events) store)
     \<and> st_total (processEvents env events store) =
         st_total (processEvents (envWithoutEvent i env) (withoutEvent i events) store)
     \<and> filter (\<lambda>a. actionIndex a \<noteq> i) (st_trace (processEvents env events store)) =
         map (reindexAction (skipIndex i))
           (st_trace (processEvents (envWithoutEvent i env) (withoutEvent i events) store))"
    using one two three four unfolding tr[symmetric] by blast
qed

text \<open>
  Three detected events with \<open>saveEvent\<close> throwing for the first. The first is neither
  resolved, dispatched nor marked, and is not stored. The second and the third are
  dispatched and marked notified, two notifications are sent, and the collection is the
  one that the run on the second and third event alone leaves.
\<close>

theorem save_failure_isolated_witness:
  "st_total (processEvents (saveFailsAt 0) threeEvents Map.empty) = 2
   \<and> st_total (processEvents (envWithoutEvent 0 (saveFailsAt 0)) (withoutEvent 0 threeEvents)
        Map.empty) = 2
   \<and> st_events (processEvents (saveFailsAt 0) threeEvents Map.empty) =
       st_events (processEvents (envWithoutEvent 0 (saveFailsAt 0)) (withoutEvent 0 threeEvents)
         Map.empty)
   \<and> st_events (processEvents (saveFailsAt 0) threeEvents Map.empty)
        ''nba_0022600800_GAME_START'' = None
   \<and> map_option e_notified (st_events (processEvents (saveFailsAt 0) threeEvents Map.empty)
        ''nba_0022600800_BLOWOUT'') = Some True
   \<and> map_option e_notified (st_events (processEvents (saveFailsAt 0) threeEvents Map.empty)
        ''nba_0022600800_FINAL_PERIOD'') = Some True
   \<and> GetTargetUsersCall 0 ''nba_0022600800_GAME_START''
        \<notin> set (st_trace (processEvents (saveFailsAt 0) threeEvents Map.empty))
   \<and> SendEventNotificationCall 0 ''nba_0022600800_GAME_START''
        \<notin> set (st_trace (processEvents (saveFailsAt 0) threeEvents Map.empty))
   \<and> MarkEventNotifiedCall 0 ''nba_0022600800_GAME_START''
        \<notin> set (st_trace (processEvents (saveFailsAt 0) threeEvents Map.empty))
   \<and> SendEventNotificationCall 1 ''nba_0022600800_BLOWOUT''
        \<in> set (st_trace (processEvents (saveFailsAt 0) threeEvents Map.empty))
   \<and> MarkEventNotifiedCall 1 ''nba_0022600800_BLOWOUT''
        \<in> set (st_trace (processEvents (saveFailsAt 0) threeEvents Map.empty))
   \<and> SendEventNotificationCall 2 ''nba_0022600800_FINAL_PERIOD''
        \<in> set (st_trace (processEvents (saveFailsAt 0) threeEvents Map.empty))
   \<and> MarkEventNotifiedCall 2 ''nba_0022600800_FINAL_PERIOD''
        \<in> set (st_trace (processEvents (saveFailsAt 0) threeEvents Map.empty))"
proof -
  let ?run = "processEvents (saveFailsAt 0) threeEvents Map.empty"
  let ?short = "processEvents (envWithoutEvent 0 (saveFailsAt 0)) (withoutEvent 0 threeEvents)
        Map.empty"
  have len: "length threeEvents = 3"
    using arg_cong[OF threeEvents_ids, of length] by simp
  have id0: "e_id (threeEvents ! 0) = ''nba_0022600800_GAME_START''"
    using arg_cong[OF threeEvents_ids, of "\<lambda>xs. xs ! 0"] len by simp
  have hyp: "0 < length threeEvents \<and>
      env_saveEventThrows (saveFailsAt 0) 0 = Some (Thrown ''unavailable'')"
    using len by (simp add: saveFailsAt_simps)
  have first: "\<forall>a \<in> set (st_trace ?run). actionIndex a = 0 \<longrightarrow>
          a = GetEventCall 0 (e_id (threeEvents ! 0)) \<or>
          a = SaveEventCall 0 (e_id (threeEvents ! 0))"
    and ev: "st_events ?run = st_events ?short"
    and tot: "st_total ?run = st_total ?short"
    using save_failure_isolated[of 0 threeEvents "saveFailsAt 0" "Thrown ''unavailable''"
            Map.empty] hyp
    by blast+
  have "a \<notin> set (st_trace ?run)"
    if "actionIndex a = 0" "a \<noteq> GetEventCall 0 (e_id (threeEvents ! 0))"
      "a \<noteq> SaveEventCall 0 (e_id (threeEvents ! 0))" for a
    using first that by blast
  then have no: "GetTargetUsersCall 0 ''nba_0022600800_GAME_START'' \<notin> set (st_trace ?run)"
    "SendEventNotificationCall 0 ''nba_0022600800_GAME_START'' \<notin> set (st_trace ?run)"
    "MarkEventNotifiedCall 0 ''nba_0022600800_GAME_START'' \<notin> set (st_trace ?run)"
    by simp_all
  show ?thesis
    using failing_run no ev tot by simp
qed

end
